theory Spec2Isabelle
  imports Main "HOL-Library.Word" "HOL-Library.AList" "HOL-Library.Sublist"
begin

section \<open>JavaScript strings and buffers\<close>

text \<open>
  A JavaScript string is a sequence of UTF-16 code units and \<open>length\<close> counts code
  units; a Node \<open>Buffer\<close> is a sequence of bytes. The filler vocabulary of
  \<open>twilioStream.js\<close> contains Devanagari words, so strings are lists of 16-bit words
  rather than Isabelle's 8-bit characters. \<open>js\<close> embeds a Basic Latin literal.
\<close>

type_synonym jsstring = "16 word list"
type_synonym buffer = "8 word list"

definition js :: "string \<Rightarrow> jsstring" where
  "js s = map of_char s"

text \<open>
  The class \<open>\s\<close> of a regular expression and the characters removed by
  \<open>String.prototype.trim\<close> are the same set: the ECMAScript WhiteSpace and
  LineTerminator code points.
\<close>

definition isWhiteSpace :: "16 word \<Rightarrow> bool" where
  "isWhiteSpace c =
     (c \<in> {0x9, 0xA, 0xB, 0xC, 0xD, 0x20, 0xA0, 0x1680, 0x2028, 0x2029, 0x202F, 0x205F,
            0x3000, 0xFEFF}
      \<or> (0x2000 \<le> c \<and> c \<le> 0x200A))"

text \<open>\<open>s.trim()\<close>\<close>

definition trim :: "jsstring \<Rightarrow> jsstring" where
  "trim s = rev (dropWhile isWhiteSpace (rev (dropWhile isWhiteSpace s)))"

text \<open>\<open>s.replace(/\s+/g, " ")\<close>: every maximal run of white space becomes one space.\<close>

function collapseSpaces :: "jsstring \<Rightarrow> jsstring" where
  "collapseSpaces [] = []"
| "collapseSpaces (c # cs) =
     (if isWhiteSpace c then 0x20 # collapseSpaces (dropWhile isWhiteSpace cs)
      else c # collapseSpaces cs)"
  by pat_completeness auto
termination
  by (relation "measure length") (auto simp: length_dropWhile_le le_imp_less_Suc)

text \<open>
  \<open>s.split(/\s+/)\<close>: the pieces between maximal runs of white space, with an empty
  first piece when the string starts with white space, an empty last piece when it ends
  with white space, and \<open>[""]\<close> for the empty string.
\<close>

function splitSpaces :: "jsstring \<Rightarrow> jsstring list" where
  "splitSpaces [] = [[]]"
| "splitSpaces (c # cs) =
     (if isWhiteSpace c then [] # splitSpaces (dropWhile isWhiteSpace cs)
      else (case splitSpaces cs of [] \<Rightarrow> [[c]] | w # ws \<Rightarrow> (c # w) # ws))"
  by pat_completeness auto
termination
  by (relation "measure length") (auto simp: length_dropWhile_le le_imp_less_Suc)

text \<open>\<open>s.split(/\s+/).filter(Boolean)\<close>: the empty pieces are dropped.\<close>

definition splitWords :: "jsstring \<Rightarrow> jsstring list" where
  "splitWords s = filter (\<lambda>w. w \<noteq> []) (splitSpaces s)"

text \<open>
  \<open>w.replace(/[|?!.]/g, "")\<close>, where the first character of the class is the Devanagari
  danda U+0964: all four marks are removed wherever they stand in the word.
\<close>

definition stripPunctuation :: "jsstring \<Rightarrow> jsstring" where
  "stripPunctuation w = filter (\<lambda>c. c \<notin> {0x964, 0x3F, 0x21, 0x2E}) w"

text \<open>
  \<open>String.prototype.toLowerCase\<close>, \<open>Buffer.from(s, "base64")\<close> and
  \<open>buf.toString("base64")\<close> belong to the runtime, and \<open>DEEPGRAM_API_KEY\<close> to the
  process environment read by \<open>config.js\<close>. They are parameters of the model.
\<close>

record runtime =
  toLowerCase :: "jsstring \<Rightarrow> jsstring"
  base64Encode :: "buffer \<Rightarrow> jsstring"
  base64Decode :: "jsstring \<Rightarrow> buffer"
  DEEPGRAM_API_KEY :: jsstring

text \<open>
  On a string of Basic Latin and Devanagari code units \<open>toLowerCase\<close> maps \<open>A\<close> to
  \<open>Z\<close> onto \<open>a\<close> to \<open>z\<close> and leaves every other code unit as it is. This instance is
  used to run the model on such strings; base64 text is kept as the bytes it stands for.
\<close>

definition latinToLowerCase :: "jsstring \<Rightarrow> jsstring" where
  "latinToLowerCase s = map (\<lambda>c. if 0x41 \<le> c \<and> c \<le> 0x5A then c + 0x20 else c) s"

definition nodeRuntime :: runtime where
  "nodeRuntime =
     \<lparr> toLowerCase = latinToLowerCase,
       base64Encode = map ucast,
       base64Decode = map ucast,
       DEEPGRAM_API_KEY = js ''key'' \<rparr>"

section \<open>The noise gate of \<open>twilioStream.js\<close>\<close>

definition FILLER_PHRASES :: "jsstring list" where
  "FILLER_PHRASES =
     [js ''sir'', js ''ji'', [0x91C, 0x940], [0x939, 0x948], [0x924, 0x94B], js ''ok'',
      [0x920, 0x940, 0x915], [0x909, 0x92E], [0x913, 0x915, 0x947], js ''um'', js ''uh'',
      js ''thank you'', js ''thanks'',
      [0x939, 0x93E, 0x901], [0x939, 0x93E, 0x902], [0x928, 0x93E], js ''no'', js ''yes'',
      js ''the'', js ''this'', js ''that'',
      [0x907, 0x938, 0x915, 0x947, 0x20, 0x92C, 0x93E, 0x930, 0x947, 0x20, 0x92E, 0x947, 0x902],
      [0x92C, 0x93E, 0x930, 0x947, 0x20, 0x92E, 0x947, 0x902],
      [0x938, 0x930], [0x938, 0x93F, 0x930], [0x91C, 0x940, 0x20, 0x91C, 0x940],
      js ''ji ji'', js ''sir sir'', js ''ok ok'',
      [0x920, 0x940, 0x915, 0x20, 0x939, 0x948], js ''theek hai'',
      [0x92E, 0x941, 0x91D, 0x947, 0x20, 0x92E, 0x941, 0x91D, 0x947, 0x20, 0x939, 0x948],
      [0x92E, 0x941, 0x91D, 0x947, 0x20, 0x939, 0x948],
      js ''right'', js ''so'', js ''it'', js ''i'', js ''a'', js ''the'']"

definition MIN_REAL_LENGTH :: nat where
  "MIN_REAL_LENGTH = 12"

definition isFillerOnly :: "runtime \<Rightarrow> jsstring \<Rightarrow> bool" where
  "isFillerOnly rt text =
     (let t = toLowerCase rt (trim (collapseSpaces text)) in
      if length t < MIN_REAL_LENGTH then True
      else
        let words = splitWords t in
        if length words = 1 \<and> t \<in> set FILLER_PHRASES then True
        else
          let allFiller =
                list_all (\<lambda>w. w \<in> set FILLER_PHRASES
                              \<or> stripPunctuation w \<in> set FILLER_PHRASES) words
          in if allFiller \<and> length words \<le> 4 then True else False)"

text \<open>
  \<open>isRepetitiveNoise\<close> counts the words in \<open>const count = {}\<close>, an ordinary object.
  \<open>count[k] || 0\<close> therefore also finds what \<open>{}\<close> inherits from \<open>Object.prototype\<close>:
  for one of the inherited function names the old value is a function, \<open>+ 1\<close> makes a
  string of it, and the string is stored and grows at every later occurrence; for
  \<open>__proto__\<close> the old value is the prototype object, and storing the resulting string
  through the \<open>__proto__\<close> setter does nothing. A stored value is a positive number or
  such a string.
\<close>

datatype countval = CNum nat | CStr

definition inheritedFunctions :: "jsstring list" where
  "inheritedFunctions =
     [js ''constructor'', js ''hasOwnProperty'', js ''isPrototypeOf'',
      js ''propertyIsEnumerable'', js ''toLocaleString'', js ''toString'', js ''valueOf'',
      js ''__defineGetter__'', js ''__defineSetter__'', js ''__lookupGetter__'',
      js ''__lookupSetter__'']"

text \<open>\<open>count[k] = (count[k] || 0) + 1\<close>; a new key goes after the keys already there.\<close>

definition countWord :: "(jsstring \<times> countval) list \<Rightarrow> jsstring \<Rightarrow> (jsstring \<times> countval) list" where
  "countWord count k =
     (case map_of count k of
        Some (CNum n) \<Rightarrow> AList.update k (CNum (n + 1)) count
      | Some CStr \<Rightarrow> AList.update k CStr count
      | None \<Rightarrow>
          if k = js ''__proto__'' then count
          else if k \<in> set inheritedFunctions then AList.update k CStr count
          else AList.update k (CNum 1) count)"

text \<open>
  \<open>Math.max(...Object.values(count))\<close>: \<open>-Infinity\<close> without arguments, \<open>NaN\<close> as soon
  as one argument is a string that is not a number.
\<close>

datatype jsnumber = NaN | NegInfinity | Num nat

fun mathMax :: "countval list \<Rightarrow> jsnumber" where
  "mathMax [] = NegInfinity"
| "mathMax (v # vs) =
     (case v of
        CStr \<Rightarrow> NaN
      | CNum n \<Rightarrow>
          (case mathMax vs of NaN \<Rightarrow> NaN | NegInfinity \<Rightarrow> Num n | Num m \<Rightarrow> Num (max n m)))"

text \<open>
  \<open>Object.entries(count).find(([, n]) => n === max)?.[0]\<close>. The entries are searched in
  insertion order. (JavaScript lists keys that look like array indices first; the two
  orders can differ only when several words reach the maximum, and then the maximum is at
  most half of the words and the guard \<open>max / words.length >= 0.6\<close> is false.)
\<close>

definition findRepeated :: "(jsstring \<times> countval) list \<Rightarrow> jsnumber \<Rightarrow> jsstring option" where
  "findRepeated count mx =
     (case mx of
        Num m \<Rightarrow> map_option fst (find (\<lambda>e. snd e = CNum m) count)
      | _ \<Rightarrow> None)"

text \<open>
  \<open>max >= 3 && max / words.length >= 0.6\<close>: both are false for \<open>NaN\<close> and
  \<open>-Infinity\<close>. For a count \<open>m\<close> of \<open>n\<close> words the double \<open>m / n\<close> is the correctly
  rounded quotient and \<open>0.6\<close> the double nearest to 3/5, so the comparison is
  \<open>3 * n \<le> 5 * m\<close> (a quotient below 3/5 is at least \<open>1 / (5 * n)\<close> below it, far more
  than a rounding step for any string that fits in memory).
\<close>

definition isRepetitiveNoise :: "runtime \<Rightarrow> jsstring \<Rightarrow> bool" where
  "isRepetitiveNoise rt text =
     (let words = splitWords (trim (collapseSpaces text)) in
      if length words < 3 then False
      else
        let count = foldl countWord [] (map (\<lambda>w. stripPunctuation (toLowerCase rt w)) words);
            mx = mathMax (map snd count);
            repeatedWord = findRepeated count mx
        in case mx of
             Num m \<Rightarrow>
               if 3 \<le> m \<and> 3 * length words \<le> 5 * m then
                 (case repeatedWord of
                    Some r \<Rightarrow> if r \<in> set FILLER_PHRASES \<or> length r \<le> 3 then True else False
                  | None \<Rightarrow> False)
               else False
           | _ \<Rightarrow> False)"

definition shouldIgnoreTranscript :: "runtime \<Rightarrow> jsstring \<Rightarrow> bool" where
  "shouldIgnoreTranscript rt text =
     (if text = [] \<or> length (trim text) < MIN_REAL_LENGTH then True
      else if isFillerOnly rt text then True
      else if isRepetitiveNoise rt text then True
      else False)"

section \<open>The call session of \<open>handleTwilioStream\<close>\<close>

text \<open>
  \<open>TWILIO_MULAW_BYTES_PER_CHUNK\<close> of \<open>config.js\<close>:
  \<open>(TWILIO_SAMPLE_RATE * TWILIO_MEDIA_CHUNK_MS / 1000) | 0\<close> with a sample rate of 8000
  and 20 ms per chunk.
\<close>

definition TWILIO_SAMPLE_RATE :: nat where
  "TWILIO_SAMPLE_RATE = 8000"

definition TWILIO_MEDIA_CHUNK_MS :: nat where
  "TWILIO_MEDIA_CHUNK_MS = 20"

definition TWILIO_MULAW_BYTES_PER_CHUNK :: nat where
  "TWILIO_MULAW_BYTES_PER_CHUNK = TWILIO_SAMPLE_RATE * TWILIO_MEDIA_CHUNK_MS div 1000"

text \<open>
  The chunking loop, written three times in the source (greeting, reply, apology):
  \<^verbatim>\<open>
  for (let i = 0; i < mulawBuffer.length; i += TWILIO_MULAW_BYTES_PER_CHUNK) {
    const chunk = mulawBuffer.subarray(i, i + TWILIO_MULAW_BYTES_PER_CHUNK);
    if (chunk.length === 0) break;
    const payload = chunk.length < TWILIO_MULAW_BYTES_PER_CHUNK
      ? Buffer.concat([chunk, Buffer.alloc(TWILIO_MULAW_BYTES_PER_CHUNK - chunk.length, 0xff)])
      : chunk;
    sendMediaToTwilio(payload.toString("base64"));
  }
  \<close>
  \<open>chunkPayloads i buf\<close> is the list of payloads that the loop, entered with index
  \<open>i\<close>, hands to \<open>sendMediaToTwilio\<close>.
\<close>

function chunkPayloads :: "nat \<Rightarrow> buffer \<Rightarrow> buffer list" where
  "chunkPayloads i mulawBuffer =
     (if i < length mulawBuffer then
        let chunk = take TWILIO_MULAW_BYTES_PER_CHUNK (drop i mulawBuffer) in
        if length chunk = 0 then []
        else
          (if length chunk < TWILIO_MULAW_BYTES_PER_CHUNK
           then chunk @ replicate (TWILIO_MULAW_BYTES_PER_CHUNK - length chunk) 0xff
           else chunk)
          # chunkPayloads (i + TWILIO_MULAW_BYTES_PER_CHUNK) mulawBuffer
      else [])"
  by pat_completeness auto
termination
  by (relation "measure (\<lambda>(i, mulawBuffer). length mulawBuffer - i)")
     (auto simp: TWILIO_MULAW_BYTES_PER_CHUNK_def TWILIO_SAMPLE_RATE_def
        TWILIO_MEDIA_CHUNK_MS_def)

declare chunkPayloads.simps [simp del]

datatype role = User | Assistant

type_synonym message = "role \<times> jsstring"

datatype error = Error

text \<open>What is written to Twilio's socket: a media message or the error message.\<close>

datatype twilio_message = Media jsstring jsstring | ErrorMessage jsstring

text \<open>
  An invocation of \<open>processTranscript\<close> is suspended at one of its five \<open>await\<close>s, the
  greeting started by the \<open>start\<close> message at one of its two.
\<close>

datatype await =
    AwaitReply
  | AwaitSpeech
  | AwaitMulaw
  | AwaitFallbackSpeech
  | AwaitFallbackMulaw

datatype greeting_await = GreetingSpeech | GreetingMulaw

text \<open>
  The closure variables of \<open>handleTwilioStream\<close>, then what surrounds them: the
  \<open>readyState\<close> of Twilio's socket, the suspended invocations with their identifiers,
  and the calls made so far to the socket, to Deepgram, to \<open>nehaResponseWithHistory\<close>
  (with the history passed) and to \<open>textToSpeech\<close> (with the text passed).
\<close>

record session =
  streamSid :: "jsstring option"
  deepgramLive :: bool
  keepAliveInterval :: bool
  messages :: "message list"
  isPlaying :: bool
  pendingTranscript :: jsstring
  ignoreTranscriptsUntil :: int
  readyState :: nat
  cycles :: "(nat \<times> await) list"
  greetings :: "(nat \<times> greeting_await) list"
  nextId :: nat
  sentToTwilio :: "twilio_message list"
  sentToDeepgram :: "buffer list"
  replyCalls :: "message list list"
  speechCalls :: "jsstring list"

definition initialSession :: session where
  "initialSession =
     \<lparr> streamSid = None, deepgramLive = False, keepAliveInterval = False, messages = [],
       isPlaying = False, pendingTranscript = [], ignoreTranscriptsUntil = 0,
       readyState = 1, cycles = [], greetings = [], nextId = 0, sentToTwilio = [],
       sentToDeepgram = [], replyCalls = [], speechCalls = [] \<rparr>"

definition sendToTwilio :: "twilio_message \<Rightarrow> session \<Rightarrow> session" where
  "sendToTwilio obj s =
     (if readyState s \<noteq> 1 then s else s\<lparr>sentToTwilio := sentToTwilio s @ [obj]\<rparr>)"

text \<open>\<open>if (!streamSid) return;\<close> an absent and an empty identifier are both falsy.\<close>

definition sendMediaToTwilio :: "jsstring \<Rightarrow> session \<Rightarrow> session" where
  "sendMediaToTwilio payloadBase64 s =
     (case streamSid s of
        None \<Rightarrow> s
      | Some sid \<Rightarrow> if sid = [] then s else sendToTwilio (Media sid payloadBase64) s)"

definition streamMulaw :: "runtime \<Rightarrow> buffer \<Rightarrow> session \<Rightarrow> session" where
  "streamMulaw rt mulawBuffer s =
     foldl (\<lambda>s payload. sendMediaToTwilio (base64Encode rt payload) s) s
       (chunkPayloads 0 mulawBuffer)"

definition cleanup :: "session \<Rightarrow> session" where
  "cleanup s = s\<lparr>keepAliveInterval := False, deepgramLive := False\<rparr>"

definition GREETING_TEXT :: jsstring where
  "GREETING_TEXT =
     js ''Hello, mai Siya Ayurveda se Neha baat kar rahi hoon. Mai aapki kaisi sahayata kar sakti hoon?''"

definition FALLBACK_TEXT :: jsstring where
  "FALLBACK_TEXT = js ''Sorry, I had a problem. Please try again.''"

text \<open>
  \<open>processTranscript\<close> up to its first \<open>await\<close>: the two early returns, the flag, the
  user turn, and the call of \<open>nehaResponseWithHistory(messages)\<close>, which copies the
  history before it suspends.
\<close>

definition processTranscript :: "jsstring \<Rightarrow> session \<Rightarrow> session" where
  "processTranscript userText s =
     (if isPlaying s then s
      else if userText = [] \<or> trim userText = [] then s
      else
        let history = messages s @ [(User, userText)] in
        s\<lparr>isPlaying := True,
          messages := history,
          replyCalls := replyCalls s @ [history],
          cycles := cycles s @ [(nextId s, AwaitReply)],
          nextId := nextId s + 1\<rparr>)"

text \<open>The \<open>finally\<close> block; the invocation is over.\<close>

definition finishCycle :: "int \<Rightarrow> nat \<Rightarrow> session \<Rightarrow> session" where
  "finishCycle now cid s =
     s\<lparr>isPlaying := False,
       ignoreTranscriptsUntil := now + 1000,
       cycles := filter (\<lambda>c. fst c \<noteq> cid) (cycles s)\<rparr>"

definition awaitNext :: "nat \<Rightarrow> await \<Rightarrow> session \<Rightarrow> session" where
  "awaitNext cid a s = s\<lparr>cycles := AList.update cid a (cycles s)\<rparr>"

text \<open>The outer \<open>catch\<close> up to its first \<open>await\<close>: \<open>textToSpeech(fallback)\<close> is called.\<close>

definition startFallback :: "nat \<Rightarrow> session \<Rightarrow> session" where
  "startFallback cid s =
     awaitNext cid AwaitFallbackSpeech (s\<lparr>speechCalls := speechCalls s @ [FALLBACK_TEXT]\<rparr>)"

text \<open>
  The three continuations of \<open>processTranscript\<close>: \<open>nehaResponseWithHistory\<close>,
  \<open>textToSpeech\<close> or \<open>mp3ToMulaw8k\<close> has settled, with \<open>Inl\<close> for a rejection. A
  settlement that the invocation is not waiting for cannot happen and changes nothing.
\<close>

definition replySettled :: "nat \<Rightarrow> error + jsstring \<Rightarrow> session \<Rightarrow> session" where
  "replySettled cid result s =
     (case map_of (cycles s) cid of
        Some AwaitReply \<Rightarrow>
          (case result of
             Inl err \<Rightarrow> startFallback cid s
           | Inr reply \<Rightarrow>
               awaitNext cid AwaitSpeech
                 (s\<lparr>messages := messages s @ [(Assistant, reply)],
                    speechCalls := speechCalls s @ [reply]\<rparr>))
      | _ \<Rightarrow> s)"

definition greetingSpeechSettled :: "nat \<Rightarrow> error + buffer \<Rightarrow> session \<Rightarrow> session" where
  "greetingSpeechSettled gid result s =
     (case map_of (greetings s) gid of
        Some GreetingSpeech \<Rightarrow>
          (case result of
             Inl err \<Rightarrow> s\<lparr>greetings := filter (\<lambda>g. fst g \<noteq> gid) (greetings s)\<rparr>
           | Inr mp3Buffer \<Rightarrow> s\<lparr>greetings := AList.update gid GreetingMulaw (greetings s)\<rparr>)
      | _ \<Rightarrow> s)"

definition greetingMulawSettled :: "runtime \<Rightarrow> nat \<Rightarrow> error + buffer \<Rightarrow> session \<Rightarrow> session" where
  "greetingMulawSettled rt gid result s =
     (case map_of (greetings s) gid of
        Some GreetingMulaw \<Rightarrow>
          (case result of
             Inl err \<Rightarrow> s\<lparr>greetings := filter (\<lambda>g. fst g \<noteq> gid) (greetings s)\<rparr>
           | Inr mulawBuffer \<Rightarrow>
               (streamMulaw rt mulawBuffer s)
                 \<lparr>greetings := filter (\<lambda>g. fst g \<noteq> gid) (greetings s)\<rparr>)
      | _ \<Rightarrow> s)"

definition speechSettled :: "int \<Rightarrow> nat \<Rightarrow> error + buffer \<Rightarrow> session \<Rightarrow> session" where
  "speechSettled now cid result s =
     (case map_of (cycles s) cid of
        Some AwaitSpeech \<Rightarrow>
          (case result of
             Inl err \<Rightarrow> startFallback cid s
           | Inr mp3Buffer \<Rightarrow> awaitNext cid AwaitMulaw s)
      | Some AwaitFallbackSpeech \<Rightarrow>
          (case result of
             Inl fallbackErr \<Rightarrow> finishCycle now cid s
           | Inr mp3Buffer \<Rightarrow> awaitNext cid AwaitFallbackMulaw s)
      | _ \<Rightarrow> greetingSpeechSettled cid result s)"

definition mulawSettled :: "runtime \<Rightarrow> int \<Rightarrow> nat \<Rightarrow> error + buffer \<Rightarrow> session \<Rightarrow> session" where
  "mulawSettled rt now cid result s =
     (case map_of (cycles s) cid of
        Some AwaitMulaw \<Rightarrow>
          (case result of
             Inl err \<Rightarrow> startFallback cid s
           | Inr mulawBuffer \<Rightarrow>
               if length mulawBuffer = 0 then startFallback cid s
               else finishCycle now cid (streamMulaw rt mulawBuffer s))
      | Some AwaitFallbackMulaw \<Rightarrow>
          (case result of
             Inl fallbackErr \<Rightarrow> finishCycle now cid s
           | Inr mulawBuffer \<Rightarrow> finishCycle now cid (streamMulaw rt mulawBuffer s))
      | _ \<Rightarrow> greetingMulawSettled rt cid result s)"

text \<open>The handler of Deepgram's \<open>Transcript\<close> event; interim and final results alike.\<close>

definition onTranscript :: "jsstring \<Rightarrow> bool \<Rightarrow> session \<Rightarrow> session" where
  "onTranscript transcript isFinal s =
     (if transcript = [] \<or> trim transcript = [] then s
      else if isFinal
        then s\<lparr>pendingTranscript := trim (pendingTranscript s @ js '' '' @ transcript)\<rparr>
        else s\<lparr>pendingTranscript := trim (pendingTranscript s @ js '' '' @ transcript)\<rparr>)"

text \<open>The handler of Deepgram's \<open>UtteranceEnd\<close> event; \<open>now\<close> is \<open>Date.now()\<close>.\<close>

definition onUtteranceEnd :: "runtime \<Rightarrow> int \<Rightarrow> session \<Rightarrow> session" where
  "onUtteranceEnd rt now s =
     (if now < ignoreTranscriptsUntil s then s\<lparr>pendingTranscript := []\<rparr>
      else
        let userText = trim (pendingTranscript s);
            s1 = s\<lparr>pendingTranscript := []\<rparr>
        in if shouldIgnoreTranscript rt userText then s1
           else processTranscript userText s1)"

text \<open>
  Twilio's \<open>start\<close> message: the stream identifier is stored; without a Deepgram key the
  error message is sent and nothing else happens; otherwise the greeting is started and
  the Deepgram connection created.
\<close>

definition onStart :: "runtime \<Rightarrow> jsstring option \<Rightarrow> session \<Rightarrow> session" where
  "onStart rt sid s =
     (let s1 = s\<lparr>streamSid := sid\<rparr> in
      if DEEPGRAM_API_KEY rt = [] then
        sendToTwilio (ErrorMessage (js ''Server missing STT config'')) s1
      else
        s1\<lparr>speechCalls := speechCalls s1 @ [GREETING_TEXT],
           greetings := greetings s1 @ [(nextId s1, GreetingSpeech)],
           nextId := nextId s1 + 1,
           deepgramLive := True\<rparr>)"

text \<open>
  Twilio's \<open>media\<close> message:
  \<open>if (event === "media" && msg.media?.payload && deepgramLive) { if (isPlaying) return; ... }\<close>
  A missing and an empty payload are both falsy. The connection object of the Deepgram
  SDK has a \<open>send\<close> function; the call is recorded, and what the SDK does with it
  (an exception is caught and logged) is outside the session.
\<close>

definition onMedia :: "runtime \<Rightarrow> jsstring \<Rightarrow> session \<Rightarrow> session" where
  "onMedia rt payload s =
     (if payload \<noteq> [] \<and> deepgramLive s then
        if isPlaying s then s
        else s\<lparr>sentToDeepgram := sentToDeepgram s @ [base64Decode rt payload]\<rparr>
      else s)"

text \<open>
  Everything that can happen to a session: a message or an event of Twilio's socket, an
  event of the Deepgram connection, the settlement of a pending call.
\<close>

datatype event =
    TwilioStart "jsstring option"
  | TwilioMedia jsstring
  | TwilioStop
  | TwilioClose
  | TwilioError
  | TwilioReadyState nat
  | DeepgramOpen
  | DeepgramClose
  | DeepgramError
  | Transcript jsstring bool
  | UtteranceEnd
  | ReplySettled nat "error + jsstring"
  | SpeechSettled nat "error + buffer"
  | MulawSettled nat "error + buffer"

fun step :: "runtime \<Rightarrow> int \<Rightarrow> event \<Rightarrow> session \<Rightarrow> session" where
  "step rt now (TwilioStart sid) s = onStart rt sid s"
| "step rt now (TwilioMedia payload) s = onMedia rt payload s"
| "step rt now TwilioStop s = cleanup s"
| "step rt now TwilioClose s = cleanup s"
| "step rt now TwilioError s = cleanup s"
| "step rt now (TwilioReadyState n) s = s\<lparr>readyState := n\<rparr>"
| "step rt now DeepgramOpen s = s\<lparr>keepAliveInterval := True\<rparr>"
| "step rt now DeepgramClose s = cleanup s"
| "step rt now DeepgramError s = cleanup s"
| "step rt now (Transcript transcript isFinal) s = onTranscript transcript isFinal s"
| "step rt now UtteranceEnd s = onUtteranceEnd rt now s"
| "step rt now (ReplySettled cid result) s = replySettled cid result s"
| "step rt now (SpeechSettled cid result) s = speechSettled now cid result s"
| "step rt now (MulawSettled cid result) s = mulawSettled rt now cid result s"

text \<open>A run: the events of a call in the order of the event loop, each with its time.\<close>

definition run :: "runtime \<Rightarrow> (int \<times> event) list \<Rightarrow> session \<Rightarrow> session" where
  "run rt evs s = foldl (\<lambda>s (now, ev). step rt now ev s) s evs"

text \<open>The transcript fragments of one utterance as events, each with its time.\<close>

definition fragments :: "(int \<times> jsstring \<times> bool) list \<Rightarrow> (int \<times> event) list" where
  "fragments frs = map (\<lambda>(now, transcript, isFinal). (now, Transcript transcript isFinal)) frs"

text \<open>The audio frames of Twilio as \<open>media\<close> messages, each with its time.\<close>

definition mediaMessages :: "(int \<times> jsstring) list \<Rightarrow> (int \<times> event) list" where
  "mediaMessages frames = map (\<lambda>(now, payload). (now, TwilioMedia payload)) frames"

text \<open>
  For statements about the progress of an invocation of \<open>processTranscript\<close>: the
  settlement it is waiting for at an \<open>await\<close>, and the number of \<open>await\<close>s from there
  to the \<open>finally\<close> block along the longest path through the function.
\<close>

fun awaits :: "await \<Rightarrow> nat \<Rightarrow> event \<Rightarrow> bool" where
  "awaits AwaitReply cid (ReplySettled c result) = (c = cid)"
| "awaits AwaitSpeech cid (SpeechSettled c result) = (c = cid)"
| "awaits AwaitMulaw cid (MulawSettled c result) = (c = cid)"
| "awaits AwaitFallbackSpeech cid (SpeechSettled c result) = (c = cid)"
| "awaits AwaitFallbackMulaw cid (MulawSettled c result) = (c = cid)"
| "awaits a cid ev = False"

fun awaitsLeft :: "await \<Rightarrow> nat" where
  "awaitsLeft AwaitReply = 5"
| "awaitsLeft AwaitSpeech = 4"
| "awaitsLeft AwaitMulaw = 3"
| "awaitsLeft AwaitFallbackSpeech = 2"
| "awaitsLeft AwaitFallbackMulaw = 1"

definition NEHA_SYSTEM_PROMPT :: jsstring where
  "NEHA_SYSTEM_PROMPT =
     js ''You are Neha, a real person on a phone call from Siya Ayurveda. Yo''
     @ js ''u speak naturally in Hindi and English (Hinglish) like a friendly ''
     @ js ''shop assistant. Keep replies short for a call: 1-3 sentences. Be w''
     @ js ''arm and human.''
     @ [0xA, 0xA]
     @ js ''When the customer asks about products, use the get_products tool (''
     @ js ''with optional search query) to fetch real products, then describe ''
     @ js ''them in a natural way and ask if they want to know more or order.''
     @ [0xA]
     @ js ''When they want to buy, ask for: full name, full address (address l''
     @ js ''ine, city, state, pincode), phone, and how they want to pay (COD, ''
     @ js ''online, etc.). Then use create_draft_order with the collected deta''
     @ js ''ils to create their order. Confirm the order and tell them next st''
     @ js ''eps (e.g. we will send payment link / COD confirmation).''
     @ [0xA, 0xA]
     @ js ''Always sound like a real person on a call''
     @ [0x2014]
     @ js ''use ''
     @ [0x22]
     @ js ''ji''
     @ [0x22]
     @ js '', ''
     @ [0x22]
     @ js ''bilkul''
     @ [0x22]
     @ js '', ''
     @ [0x22]
     @ js ''theek hai''
     @ [0x22]
     @ js '', natural fillers. Never sound like a robot or list bullet points.''"

text \<open>
  A tool call of a completion with its \<open>id\<close>, \<open>function?.name\<close> and
  \<open>function?.arguments\<close>, and the messages of \<open>allMessages\<close>: the system prompt, the
  turns of the history, an assistant message that asks for tool calls (pushed as it
  came), and the result of a tool.
\<close>

datatype tool_call =
  ToolCall (call_id: jsstring) (function_name: "jsstring option")
    (function_arguments: "jsstring option")

datatype chat_message =
    SystemMessage jsstring
  | HistoryMessage role jsstring
  | AssistantMessage "jsstring option" "tool_call list"
  | ToolMessage jsstring jsstring

text \<open>
  What the function calls: \<open>openai.chat.completions.create\<close>, which rejects (\<open>Inl\<close>,
  also for a response without \<open>choices\<close>, where reading \<open>choices[0]\<close> throws) or
  resolves to a response whose \<open>choices[0]?.message\<close> is absent or has a \<open>content\<close>
  (possibly null) and \<open>tool_calls\<close> (none when absent); \<open>JSON.parse\<close>, which may throw;
  \<open>runTool\<close>, which formats as JSON text what \<open>getProducts\<close>, \<open>getProductById\<close> and
  \<open>createDraftOrder\<close> of \<open>shopify.js\<close> return, and may reject with them.
\<close>

record 'j services =
  createCompletion :: "chat_message list \<Rightarrow> error + (jsstring option \<times> tool_call list) option"
  JSON_parse :: "jsstring \<Rightarrow> 'j option"
  emptyObject :: 'j
  runTool :: "jsstring option \<Rightarrow> 'j \<Rightarrow> error + jsstring"

definition NO_MESSAGE_TEXT :: jsstring where
  "NO_MESSAGE_TEXT = js ''Sorry, main abhi respond nahi de paayi. Phir try karein.''"

definition EMPTY_REPLY_TEXT :: jsstring where
  "EMPTY_REPLY_TEXT = js ''Aur bataiye, main kaise help kar sakti hoon?''"

definition EXHAUSTED_TEXT :: jsstring where
  "EXHAUSTED_TEXT = js ''Thoda time lagega, baad mein phir try karein.''"

text \<open>
  \<open>let args = {}; try { args = JSON.parse(tc.function?.arguments || "{}"); } catch (_) {}\<close>
\<close>

definition toolArguments :: "'j services \<Rightarrow> tool_call \<Rightarrow> 'j" where
  "toolArguments sv tc =
     (let text = (case function_arguments tc of
                    None \<Rightarrow> js ''{}''
                  | Some a \<Rightarrow> if a = [] then js ''{}'' else a)
      in case JSON_parse sv text of None \<Rightarrow> emptyObject sv | Some args \<Rightarrow> args)"

text \<open>\<open>for (const tc of msg.tool_calls) { ... }\<close>: a rejection of \<open>runTool\<close> ends it.\<close>

fun runToolCalls ::
  "'j services \<Rightarrow> tool_call list \<Rightarrow> chat_message list \<Rightarrow> error + chat_message list" where
  "runToolCalls sv [] allMessages = Inr allMessages"
| "runToolCalls sv (tc # tcs) allMessages =
     (case runTool sv (function_name tc) (toolArguments sv tc) of
        Inl err \<Rightarrow> Inl err
      | Inr result \<Rightarrow>
          runToolCalls sv tcs (allMessages @ [ToolMessage (call_id tc) result]))"

text \<open>
  \<open>while (maxTurns-- > 0) { ... }\<close> entered with the given \<open>maxTurns\<close>. Beside the
  result (\<open>Inl\<close> when the promise rejects) the model returns the requests made to
  \<open>openai.chat.completions.create\<close>, in order.
\<close>

fun nehaLoop ::
  "'j services \<Rightarrow> nat \<Rightarrow> chat_message list \<Rightarrow> (error + jsstring) \<times> chat_message list list" where
  "nehaLoop sv 0 allMessages = (Inr EXHAUSTED_TEXT, [])"
| "nehaLoop sv (Suc maxTurns) allMessages =
     (case createCompletion sv allMessages of
        Inl err \<Rightarrow> (Inl err, [allMessages])
      | Inr None \<Rightarrow> (Inr NO_MESSAGE_TEXT, [allMessages])
      | Inr (Some (content, tool_calls)) \<Rightarrow>
          if tool_calls \<noteq> [] then
            (case runToolCalls sv tool_calls
                    (allMessages @ [AssistantMessage content tool_calls]) of
               Inl err \<Rightarrow> (Inl err, [allMessages])
             | Inr allMessages' \<Rightarrow>
                 (case nehaLoop sv maxTurns allMessages' of
                    (result, requests) \<Rightarrow> (result, allMessages # requests)))
          else
            (Inr (case content of
                    None \<Rightarrow> EMPTY_REPLY_TEXT
                  | Some c \<Rightarrow> if trim c = [] then EMPTY_REPLY_TEXT else trim c),
             [allMessages]))"

definition nehaResponseWithHistory ::
  "'j services \<Rightarrow> message list \<Rightarrow> (error + jsstring) \<times> chat_message list list" where
  "nehaResponseWithHistory sv msgs =
     nehaLoop sv 8
       (SystemMessage NEHA_SYSTEM_PROMPT # map (\<lambda>(r, content). HistoryMessage r content) msgs)"

text \<open>
  Three instances to run the loop on: a model that asks for the product list at every
  round, one that answers at once, and one that asks for the product list as long as
  the messages hold fewer than \<open>k\<close> tool results and then answers. The tool of the
  third returns its arguments as the result, and its \<open>JSON.parse\<close> fails on "oops".
\<close>

definition alwaysTools :: "unit services" where
  "alwaysTools =
     \<lparr> createCompletion =
         (\<lambda>ms. Inr (Some (None, [ToolCall (js ''call_1'') (Some (js ''get_products'')) None]))),
       JSON_parse = (\<lambda>text. Some ()),
       emptyObject = (),
       runTool = (\<lambda>name args. Inr (js ''{}'')) \<rparr>"

definition answersAtOnce :: "unit services" where
  "answersAtOnce =
     \<lparr> createCompletion = (\<lambda>ms. Inr (Some (Some (js '' ji bilkul ''), []))),
       JSON_parse = (\<lambda>text. Some ()),
       emptyObject = (),
       runTool = (\<lambda>name args. Inr (js ''{}'')) \<rparr>"

definition toolsThenAnswer :: "nat \<Rightarrow> jsstring services" where
  "toolsThenAnswer k =
     \<lparr> createCompletion =
         (\<lambda>ms. if length (filter (\<lambda>m. case m of ToolMessage i c \<Rightarrow> True | _ \<Rightarrow> False) ms) < k
               then Inr (Some (None,
                      [ToolCall (js ''call_1'') (Some (js ''get_products''))
                         (Some (js ''[3]'')),
                       ToolCall (js ''call_2'') (Some (js ''get_products'')) (Some (js ''oops''))]))
               else Inr (Some (Some (js '' ji bilkul ''), []))),
       JSON_parse = (\<lambda>text. if text = js ''oops'' then None else Some text),
       emptyObject = js ''{}'',
       runTool = (\<lambda>name args. Inr args) \<rparr>"

section \<open>Basic facts about strings and the session\<close>

lemma dropWhile_trim: "dropWhile isWhiteSpace (trim s) = trim s"
proof -
  define d where "d = dropWhile isWhiteSpace s"
  have split: "d = trim s @ rev (takeWhile isWhiteSpace (rev d))"
    unfolding trim_def d_def [symmetric]
    by (metis rev_append rev_rev_ident takeWhile_dropWhile_id)
  show ?thesis
  proof (cases "trim s")
    case Nil
    then show ?thesis by simp
  next
    case (Cons x xs)
    with split obtain t where "d = x # (xs @ t)" by auto
    then have "d \<noteq> []" and "hd d = x" by simp_all
    then have "\<not> isWhiteSpace x"
      unfolding d_def using hd_dropWhile [of isWhiteSpace s] by auto
    with Cons show ?thesis by simp
  qed
qed

lemma trim_idem: "trim (trim s) = trim s"
proof -
  have "dropWhile isWhiteSpace (rev (trim s)) = rev (trim s)"
    by (simp add: trim_def dropWhile_idem)
  then show ?thesis
    by (simp add: trim_def [of "trim s"] dropWhile_trim)
qed

lemma sendToTwilio_only_sends:
  "sendToTwilio m s = s\<lparr>sentToTwilio := sentToTwilio (sendToTwilio m s)\<rparr>"
  by (simp add: sendToTwilio_def)

lemma sendMediaToTwilio_only_sends:
  "sendMediaToTwilio p s = s\<lparr>sentToTwilio := sentToTwilio (sendMediaToTwilio p s)\<rparr>"
  by (simp add: sendMediaToTwilio_def sendToTwilio_def split: option.splits)

lemma foldl_sendMedia_only_sends:
  "foldl (\<lambda>s p. sendMediaToTwilio (f p) s) s ps =
     s\<lparr>sentToTwilio := sentToTwilio (foldl (\<lambda>s p. sendMediaToTwilio (f p) s) s ps)\<rparr>"
proof (induction ps arbitrary: s)
  case Nil
  then show ?case by simp
next
  case (Cons p ps)
  let ?s1 = "sendMediaToTwilio (f p) s"
  have "foldl (\<lambda>s p. sendMediaToTwilio (f p) s) ?s1 ps =
      ?s1\<lparr>sentToTwilio := sentToTwilio (foldl (\<lambda>s p. sendMediaToTwilio (f p) s) ?s1 ps)\<rparr>"
    by (rule Cons.IH)
  also have "\<dots> =
      s\<lparr>sentToTwilio := sentToTwilio (foldl (\<lambda>s p. sendMediaToTwilio (f p) s) ?s1 ps)\<rparr>"
    by (subst sendMediaToTwilio_only_sends) simp
  finally show ?case by simp
qed

lemma streamMulaw_only_sends:
  "streamMulaw rt buf s = s\<lparr>sentToTwilio := sentToTwilio (streamMulaw rt buf s)\<rparr>"
  unfolding streamMulaw_def by (rule foldl_sendMedia_only_sends)

lemma streamMulaw_fields [simp]:
  "streamSid (streamMulaw rt buf s) = streamSid s"
  "deepgramLive (streamMulaw rt buf s) = deepgramLive s"
  "keepAliveInterval (streamMulaw rt buf s) = keepAliveInterval s"
  "messages (streamMulaw rt buf s) = messages s"
  "isPlaying (streamMulaw rt buf s) = isPlaying s"
  "pendingTranscript (streamMulaw rt buf s) = pendingTranscript s"
  "ignoreTranscriptsUntil (streamMulaw rt buf s) = ignoreTranscriptsUntil s"
  "readyState (streamMulaw rt buf s) = readyState s"
  "cycles (streamMulaw rt buf s) = cycles s"
  "greetings (streamMulaw rt buf s) = greetings s"
  "nextId (streamMulaw rt buf s) = nextId s"
  "sentToDeepgram (streamMulaw rt buf s) = sentToDeepgram s"
  "replyCalls (streamMulaw rt buf s) = replyCalls s"
  "speechCalls (streamMulaw rt buf s) = speechCalls s"
  by (subst streamMulaw_only_sends, simp)+

lemma run_Nil [simp]: "run rt [] s = s"
  by (simp add: run_def)

lemma run_Cons [simp]: "run rt ((now, ev) # evs) s = run rt evs (step rt now ev s)"
  by (simp add: run_def)

lemma run_append: "run rt (evs @ evs') s = run rt evs' (run rt evs s)"
  by (simp add: run_def)

lemma processTranscript_playing: "isPlaying s \<Longrightarrow> processTranscript userText s = s"
  by (simp add: processTranscript_def)

lemma map_of_filter_length:
  "map_of xs k = Some v \<Longrightarrow> length (filter (\<lambda>c. fst c \<noteq> k) xs) < length xs"
proof (induction xs)
  case Nil
  then show ?case by simp
next
  case (Cons x xs)
  show ?case
  proof (cases "fst x = k")
    case True
    have "length (filter (\<lambda>c. fst c \<noteq> k) xs) < Suc (length xs)"
      by (rule le_imp_less_Suc) (rule length_filter_le)
    with True show ?thesis by simp
  next
    case False
    with Cons show ?thesis by (cases x) auto
  qed
qed

lemma greetingSpeechSettled_fields [simp]:
  "cycles (greetingSpeechSettled gid result s) = cycles s"
  "isPlaying (greetingSpeechSettled gid result s) = isPlaying s"
  "messages (greetingSpeechSettled gid result s) = messages s"
  "replyCalls (greetingSpeechSettled gid result s) = replyCalls s"
  "speechCalls (greetingSpeechSettled gid result s) = speechCalls s"
  "ignoreTranscriptsUntil (greetingSpeechSettled gid result s) = ignoreTranscriptsUntil s"
  "pendingTranscript (greetingSpeechSettled gid result s) = pendingTranscript s"
  by (simp_all add: greetingSpeechSettled_def
      split: option.splits greeting_await.splits sum.splits)

lemma greetingMulawSettled_fields [simp]:
  "cycles (greetingMulawSettled rt gid result s) = cycles s"
  "isPlaying (greetingMulawSettled rt gid result s) = isPlaying s"
  "messages (greetingMulawSettled rt gid result s) = messages s"
  "replyCalls (greetingMulawSettled rt gid result s) = replyCalls s"
  "speechCalls (greetingMulawSettled rt gid result s) = speechCalls s"
  "ignoreTranscriptsUntil (greetingMulawSettled rt gid result s) = ignoreTranscriptsUntil s"
  "pendingTranscript (greetingMulawSettled rt gid result s) = pendingTranscript s"
  by (simp_all add: greetingMulawSettled_def
      split: option.splits greeting_await.splits sum.splits)

lemma utteranceEnd_ignored:
  "shouldIgnoreTranscript rt (trim (pendingTranscript s)) \<Longrightarrow>
   step rt now UtteranceEnd s = s\<lparr>pendingTranscript := []\<rparr>"
  by (simp add: onUtteranceEnd_def)

lemma run_fragments_only_accumulates:
  "run rt (fragments frs) s =
     s\<lparr>pendingTranscript := pendingTranscript (run rt (fragments frs) s)\<rparr>"
proof (induction frs arbitrary: s)
  case Nil
  then show ?case by (simp add: fragments_def)
next
  case (Cons fr frs)
  obtain now transcript isFinal where fr: "fr = (now, transcript, isFinal)"
    by (cases fr) auto
  let ?s1 = "onTranscript transcript isFinal s"
  have s1: "?s1 = s\<lparr>pendingTranscript := pendingTranscript ?s1\<rparr>"
    by (simp add: onTranscript_def)
  have "run rt (fragments frs) ?s1 =
      ?s1\<lparr>pendingTranscript := pendingTranscript (run rt (fragments frs) ?s1)\<rparr>"
    by (rule Cons.IH)
  also have "\<dots> = s\<lparr>pendingTranscript := pendingTranscript (run rt (fragments frs) ?s1)\<rparr>"
    by (subst s1) simp
  finally show ?case
    using fr by (simp add: fragments_def)
qed

section \<open>Utterances that arrive while speaking or during the hangover\<close>

text \<open>
  C1. When Deepgram's \<open>UtteranceEnd\<close> arrives while \<open>isPlaying\<close> is true, or at a time
  before \<open>ignoreTranscriptsUntil\<close>, the handler only empties \<open>pendingTranscript\<close>:
  \<open>nehaResponseWithHistory\<close> is not called, no invocation of \<open>processTranscript\<close> is
  started and the history is unchanged. In the suppressed case in particular the
  accumulator is empty afterwards.
\<close>

theorem utteranceEnd_while_speaking_or_suppressed:
  assumes "isPlaying s \<or> now < ignoreTranscriptsUntil s"
  shows "step rt now UtteranceEnd s = s\<lparr>pendingTranscript := []\<rparr>
         \<and> replyCalls (step rt now UtteranceEnd s) = replyCalls s
         \<and> cycles (step rt now UtteranceEnd s) = cycles s
         \<and> messages (step rt now UtteranceEnd s) = messages s
         \<and> (now < ignoreTranscriptsUntil s \<longrightarrow>
              pendingTranscript (step rt now UtteranceEnd s) = [])"
proof -
  have "step rt now UtteranceEnd s = s\<lparr>pendingTranscript := []\<rparr>"
    using assms by (auto simp: onUtteranceEnd_def Let_def processTranscript_playing)
  then show ?thesis by simp
qed

theorem utteranceEnd_while_speaking_or_suppressed_witness:
  "replyCalls (step nodeRuntime 5 UtteranceEnd
      (initialSession\<lparr>isPlaying := True,
         pendingTranscript := js ''mujhe ashwagandha tablets chahiye''\<rparr>)) = []
   \<and> pendingTranscript (step nodeRuntime 5 UtteranceEnd
      (initialSession\<lparr>isPlaying := True,
         pendingTranscript := js ''mujhe ashwagandha tablets chahiye''\<rparr>)) = []
   \<and> step nodeRuntime 1500 UtteranceEnd
      (initialSession\<lparr>ignoreTranscriptsUntil := 2000,
         pendingTranscript := js ''mujhe ashwagandha tablets chahiye''\<rparr>)
     = initialSession\<lparr>ignoreTranscriptsUntil := 2000\<rparr>"
proof -
  let ?s = "initialSession\<lparr>isPlaying := True,
         pendingTranscript := js ''mujhe ashwagandha tablets chahiye''\<rparr>"
  let ?u = "initialSession\<lparr>ignoreTranscriptsUntil := 2000,
         pendingTranscript := js ''mujhe ashwagandha tablets chahiye''\<rparr>"
  have a: "isPlaying ?s \<or> 5 < ignoreTranscriptsUntil ?s" by simp
  have b: "isPlaying ?u \<or> 1500 < ignoreTranscriptsUntil ?u" by simp
  show ?thesis
    using utteranceEnd_while_speaking_or_suppressed [OF a, of nodeRuntime]
      utteranceEnd_while_speaking_or_suppressed [OF b, of nodeRuntime]
    by (simp add: initialSession_def)
qed

section \<open>One processing cycle at a time\<close>

lemma step_keeps_one_cycle:
  assumes "length (cycles s) \<le> 1" and "isPlaying s \<longleftrightarrow> cycles s \<noteq> []"
  shows "length (cycles (step rt now ev s)) \<le> 1
         \<and> (isPlaying (step rt now ev s) \<longleftrightarrow> cycles (step rt now ev s) \<noteq> [])"
proof (cases "cycles s")
  case Nil
  with assms have idle: "\<not> isPlaying s" by simp
  show ?thesis
    using Nil idle
    by (cases ev)
       (auto simp: onStart_def onMedia_def cleanup_def onTranscript_def onUtteranceEnd_def
          processTranscript_def replySettled_def speechSettled_def mulawSettled_def
          sendToTwilio_def Let_def)
next
  case (Cons c cs)
  with assms have one: "cycles s = [c]" and busy: "isPlaying s"
    by (cases cs; simp)+
  obtain cid a where c: "c = (cid, a)" by (cases c) auto
  show ?thesis
    using one busy c
    by (cases ev)
       (auto simp: onStart_def onMedia_def cleanup_def onTranscript_def onUtteranceEnd_def
          processTranscript_def replySettled_def speechSettled_def mulawSettled_def
          sendToTwilio_def Let_def startFallback_def awaitNext_def finishCycle_def
          split: await.splits sum.splits if_splits)
qed

lemma run_keeps_one_cycle:
  "length (cycles s) \<le> 1 \<Longrightarrow> (isPlaying s \<longleftrightarrow> cycles s \<noteq> []) \<Longrightarrow>
   length (cycles (run rt evs s)) \<le> 1
   \<and> (isPlaying (run rt evs s) \<longleftrightarrow> cycles (run rt evs s) \<noteq> [])"
proof (induction evs arbitrary: s)
  case Nil
  then show ?case by simp
next
  case (Cons e evs)
  obtain now ev where e: "e = (now, ev)" by (cases e) auto
  have "length (cycles (step rt now ev s)) \<le> 1
      \<and> (isPlaying (step rt now ev s) \<longleftrightarrow> cycles (step rt now ev s) \<noteq> [])"
    using Cons.prems by (intro step_keeps_one_cycle) simp_all
  then show ?case
    using Cons.IH [of "step rt now ev s"] e by simp
qed

lemma step_clears_flag_only_at_finish:
  assumes "isPlaying s" and "\<not> isPlaying (step rt now ev s)"
  shows "length (cycles (step rt now ev s)) < length (cycles s)"
  using assms
  by (cases ev)
     (auto simp: onStart_def onMedia_def cleanup_def onTranscript_def onUtteranceEnd_def
        processTranscript_def replySettled_def speechSettled_def mulawSettled_def
        sendToTwilio_def Let_def startFallback_def awaitNext_def finishCycle_def
        map_of_filter_length
        split: await.splits sum.splits if_splits option.splits)

text \<open>
  C2. In every state that a session reaches, through any interleaving of Twilio's
  messages, Deepgram's events and settlements of pending calls, at most one invocation
  of \<open>processTranscript\<close> is in flight, and \<open>isPlaying\<close> is true exactly while one is.
  \<open>processTranscript\<close> does nothing when \<open>isPlaying\<close> is already true; otherwise, for
  a text that is not blank, it sets the flag and starts a cycle before its first
  \<open>await\<close>; and a step that clears the flag is one that ends a cycle.
\<close>

theorem one_cycle_in_flight:
  "length (cycles (run rt evs initialSession)) \<le> 1
   \<and> (isPlaying (run rt evs initialSession) \<longleftrightarrow> cycles (run rt evs initialSession) \<noteq> [])
   \<and> (isPlaying s \<longrightarrow> processTranscript userText s = s)
   \<and> (\<not> isPlaying s \<and> trim userText \<noteq> [] \<longrightarrow>
        isPlaying (processTranscript userText s)
        \<and> cycles (processTranscript userText s) = cycles s @ [(nextId s, AwaitReply)])
   \<and> (isPlaying s \<and> \<not> isPlaying (step rt now ev s) \<longrightarrow>
        length (cycles (step rt now ev s)) < length (cycles s))"
proof (intro conjI impI)
  have init: "length (cycles initialSession) \<le> 1"
    "isPlaying initialSession \<longleftrightarrow> cycles initialSession \<noteq> []"
    by (simp_all add: initialSession_def)
  show "length (cycles (run rt evs initialSession)) \<le> 1"
    and "isPlaying (run rt evs initialSession) \<longleftrightarrow> cycles (run rt evs initialSession) \<noteq> []"
    using run_keeps_one_cycle [OF init, of rt evs] by simp_all
next
  assume "isPlaying s"
  then show "processTranscript userText s = s"
    by (rule processTranscript_playing)
next
  assume a: "\<not> isPlaying s \<and> trim userText \<noteq> []"
  then have "userText \<noteq> []" by (auto simp: trim_def)
  with a show "isPlaying (processTranscript userText s)"
    and "cycles (processTranscript userText s) = cycles s @ [(nextId s, AwaitReply)]"
    by (simp_all add: processTranscript_def Let_def)
next
  assume "isPlaying s \<and> \<not> isPlaying (step rt now ev s)"
  then show "length (cycles (step rt now ev s)) < length (cycles s)"
    by (intro step_clears_flag_only_at_finish) simp_all
qed

theorem one_cycle_in_flight_witness:
  "cycles (processTranscript (js ''bhejo'') initialSession) = [(0, AwaitReply)]
   \<and> isPlaying (processTranscript (js ''bhejo'') initialSession)
   \<and> processTranscript (js ''aur'') (processTranscript (js ''bhejo'') initialSession)
       = processTranscript (js ''bhejo'') initialSession
   \<and> length (cycles (step nodeRuntime 9 (SpeechSettled 0 (Inl Error))
        (initialSession\<lparr>isPlaying := True, cycles := [(0, AwaitFallbackSpeech)]\<rparr>))) < 1"
proof -
  have t: "trim (js ''bhejo'') \<noteq> []"
    by (simp add: trim_def js_def isWhiteSpace_def)
  have i: "\<not> isPlaying initialSession" "cycles initialSession = []" "nextId initialSession = 0"
    by (simp_all add: initialSession_def)
  let ?f = "initialSession\<lparr>isPlaying := True, cycles := [(0, AwaitFallbackSpeech)]\<rparr>"
  have f: "isPlaying ?f \<and> \<not> isPlaying (step nodeRuntime 9 (SpeechSettled 0 (Inl Error)) ?f)"
    by (simp add: speechSettled_def finishCycle_def)
  show ?thesis
    using t i f
      one_cycle_in_flight [of nodeRuntime "[]" initialSession "js ''bhejo''" 0 UtteranceEnd]
      one_cycle_in_flight [of nodeRuntime "[]"
        "processTranscript (js ''bhejo'') initialSession" "js ''aur''" 0 UtteranceEnd]
      one_cycle_in_flight [of nodeRuntime "[]" ?f "js ''aur''" 9 "SpeechSettled 0 (Inl Error)"]
    by simp
qed

text \<open>
  The greeting is outside this guard: the \<open>start\<close> message begins its synthesis without
  touching \<open>isPlaying\<close>, so an utterance released before the greeting's audio has
  arrived starts a cycle beside it.
\<close>

lemma greeting_beside_cycle:
  assumes "DEEPGRAM_API_KEY rt \<noteq> []" and "trim userText \<noteq> []"
  shows "greetings (processTranscript userText (step rt now (TwilioStart sid) initialSession))
           = [(0, GreetingSpeech)]
         \<and> cycles (processTranscript userText (step rt now (TwilioStart sid) initialSession))
           = [(1, AwaitReply)]"
proof -
  have "userText \<noteq> []" using assms(2) by (auto simp: trim_def)
  then show ?thesis
    using assms by (simp add: onStart_def processTranscript_def Let_def initialSession_def)
qed

section \<open>The noise gate at the end of an utterance\<close>

text \<open>
  C3. Whatever transcript fragments are accumulated, when the trimmed length of the
  accumulated text is below \<open>MIN_REAL_LENGTH\<close> = 12 at \<open>UtteranceEnd\<close>, the utterance is
  discarded: the accumulator is emptied and nothing else changes, so no user turn is
  appended to the history and \<open>nehaResponseWithHistory\<close> is not called.
\<close>

theorem short_utterance_discarded:
  assumes "length (trim (pendingTranscript (run rt (fragments frs) s))) < 12"
  shows "MIN_REAL_LENGTH = 12
         \<and> run rt (fragments frs @ [(now, UtteranceEnd)]) s = s\<lparr>pendingTranscript := []\<rparr>
         \<and> messages (run rt (fragments frs @ [(now, UtteranceEnd)]) s) = messages s
         \<and> replyCalls (run rt (fragments frs @ [(now, UtteranceEnd)]) s) = replyCalls s
         \<and> cycles (run rt (fragments frs @ [(now, UtteranceEnd)]) s) = cycles s"
proof -
  let ?s1 = "run rt (fragments frs) s"
  have "shouldIgnoreTranscript rt (trim (pendingTranscript ?s1))"
    using assms by (simp add: shouldIgnoreTranscript_def MIN_REAL_LENGTH_def trim_idem)
  then have "step rt now UtteranceEnd ?s1 = ?s1\<lparr>pendingTranscript := []\<rparr>"
    by (rule utteranceEnd_ignored)
  also have "\<dots> = s\<lparr>pendingTranscript := []\<rparr>"
    by (subst run_fragments_only_accumulates) simp
  finally have "run rt (fragments frs @ [(now, UtteranceEnd)]) s = s\<lparr>pendingTranscript := []\<rparr>"
    by (simp add: run_append)
  then show ?thesis by (simp add: MIN_REAL_LENGTH_def)
qed

theorem short_utterance_discarded_witness:
  "run nodeRuntime (fragments [(1, js ''haan'', False), (2, js ''bhejo'', True)]
      @ [(3, UtteranceEnd)]) initialSession = initialSession"
proof -
  have p: "pendingTranscript (run nodeRuntime
      (fragments [(1, js ''haan'', False), (2, js ''bhejo'', True)]) initialSession)
      = js ''haan bhejo''"
    by (simp add: fragments_def onTranscript_def initialSession_def trim_def js_def
        isWhiteSpace_def)
  have "length (trim (pendingTranscript (run nodeRuntime
      (fragments [(1, js ''haan'', False), (2, js ''bhejo'', True)]) initialSession))) < 12"
    by (simp add: p) (simp add: trim_def js_def isWhiteSpace_def)
  from short_utterance_discarded [OF this, of 3]
  show ?thesis by (simp add: initialSession_def)
qed

text \<open>
  C4, as the code has it. Let the accumulated utterance, trimmed as the \<open>UtteranceEnd\<close> handler does, be
  normalised as \<open>isFillerOnly\<close> does (runs of white space collapsed, trimmed, lower
  case). When each of its words is in \<open>FILLER_PHRASES\<close>, as it stands or without the
  marks danda, \<open>?\<close>, \<open>!\<close> and \<open>.\<close>, and there are at most 4 words, then
  \<open>isFillerOnly\<close> holds, the utterance is ignored and at \<open>UtteranceEnd\<close> only the
  accumulator is emptied: no user turn, no call of \<open>nehaResponseWithHistory\<close>. In
  particular the fragments "ji", "ji" followed by \<open>UtteranceEnd\<close> leave a fresh session
  as it was, and "ji ji" is filler only.
\<close>

theorem filler_only_discarded:
  assumes "userText = trim (pendingTranscript s)"
    and "words = splitWords (toLowerCase rt (trim (collapseSpaces userText)))"
    and "list_all (\<lambda>w. w \<in> set FILLER_PHRASES \<or> stripPunctuation w \<in> set FILLER_PHRASES) words"
    and "length words \<le> 4"
  shows "isFillerOnly rt userText
         \<and> shouldIgnoreTranscript rt userText
         \<and> step rt now UtteranceEnd s = s\<lparr>pendingTranscript := []\<rparr>
         \<and> messages (step rt now UtteranceEnd s) = messages s
         \<and> replyCalls (step rt now UtteranceEnd s) = replyCalls s
         \<and> isFillerOnly nodeRuntime (js ''ji ji'')
         \<and> run rt' [(t1, Transcript (js ''ji'') f1), (t2, Transcript (js ''ji'') f2),
                    (t3, UtteranceEnd)] initialSession = initialSession"
proof -
  have filler: "isFillerOnly rt userText"
    using assms(2-4) by (simp add: isFillerOnly_def Let_def)
  then have ignore: "shouldIgnoreTranscript rt (trim (pendingTranscript s))"
    using assms(1) by (simp add: shouldIgnoreTranscript_def)
  have discard: "step rt now UtteranceEnd s = s\<lparr>pendingTranscript := []\<rparr>"
    using ignore by (rule utteranceEnd_ignored)
  have jiji: "isFillerOnly nodeRuntime (js ''ji ji'')"
    by (simp add: isFillerOnly_def nodeRuntime_def latinToLowerCase_def trim_def js_def
        isWhiteSpace_def MIN_REAL_LENGTH_def)
  let ?s2 = "run rt' [(t1, Transcript (js ''ji'') f1), (t2, Transcript (js ''ji'') f2)]
      initialSession"
  have acc: "?s2 = initialSession\<lparr>pendingTranscript := js ''ji ji''\<rparr>"
    by (simp add: onTranscript_def initialSession_def trim_def js_def isWhiteSpace_def)
  have short: "length (trim (trim (js ''ji ji''))) < MIN_REAL_LENGTH"
    by (simp add: trim_idem) (simp add: trim_def js_def isWhiteSpace_def MIN_REAL_LENGTH_def)
  have "shouldIgnoreTranscript rt' (trim (pendingTranscript ?s2))"
    unfolding acc using short by (simp add: shouldIgnoreTranscript_def)
  then have "step rt' t3 UtteranceEnd ?s2 = ?s2\<lparr>pendingTranscript := []\<rparr>"
    by (rule utteranceEnd_ignored)
  then have "step rt' t3 UtteranceEnd ?s2 = initialSession"
    unfolding acc by (simp add: initialSession_def)
  then have scenario: "run rt' [(t1, Transcript (js ''ji'') f1), (t2, Transcript (js ''ji'') f2),
      (t3, UtteranceEnd)] initialSession = initialSession"
    by simp
  show ?thesis
    using filler ignore discard jiji scenario assms(1) by simp
qed

theorem filler_only_discarded_witness:
  "isFillerOnly nodeRuntime (js ''Thanks. OK! Ji? sir.'')
   \<and> step nodeRuntime 7 UtteranceEnd
        (initialSession\<lparr>pendingTranscript := js ''Thanks. OK! Ji? sir.''\<rparr>) = initialSession"
proof -
  let ?s = "initialSession\<lparr>pendingTranscript := js ''Thanks. OK! Ji? sir.''\<rparr>"
  have u: "js ''Thanks. OK! Ji? sir.'' = trim (pendingTranscript ?s)"
    by (simp add: trim_def js_def isWhiteSpace_def)
  have w: "[js ''thanks.'', js ''ok!'', js ''ji?'', js ''sir.''] =
      splitWords (toLowerCase nodeRuntime (trim (collapseSpaces (js ''Thanks. OK! Ji? sir.''))))"
    by (simp add: splitWords_def nodeRuntime_def latinToLowerCase_def trim_def js_def
        isWhiteSpace_def)
  have f: "list_all (\<lambda>w. w \<in> set FILLER_PHRASES \<or> stripPunctuation w \<in> set FILLER_PHRASES)
      [js ''thanks.'', js ''ok!'', js ''ji?'', js ''sir.'']"
    by (simp add: FILLER_PHRASES_def stripPunctuation_def js_def)
  have n: "length [js ''thanks.'', js ''ok!'', js ''ji?'', js ''sir.''] \<le> 4"
    by simp
  from filler_only_discarded [OF u w f n, of 7]
  show ?thesis by (simp add: initialSession_def)
qed

text \<open>
  The marks removed are those four and no others. In "thanks, thanks," each of the two
  words is the filler "thanks" once its trailing comma is taken off, but the comma stays
  on the word for the code: the utterance is neither filler only nor repetitive noise
  nor too short, it is released, and \<open>nehaResponseWithHistory\<close> is called with it.
\<close>

theorem filler_only_counterexample:
  "splitWords (trim (collapseSpaces (js ''thanks, thanks,'')))
     = [js ''thanks,'', js ''thanks,'']
   \<and> butlast (js ''thanks,'') = js ''thanks''
   \<and> js ''thanks'' \<in> set FILLER_PHRASES
   \<and> \<not> isFillerOnly nodeRuntime (js ''thanks, thanks,'')
   \<and> \<not> shouldIgnoreTranscript nodeRuntime (js ''thanks, thanks,'')
   \<and> replyCalls (run nodeRuntime
        [(1, Transcript (js ''thanks, thanks,'') True), (2, UtteranceEnd)] initialSession)
       = [[(User, js ''thanks, thanks,'')]]"
proof -
  have collapse: "collapseSpaces (js ''thanks, thanks,'') = js ''thanks, thanks,''"
    by (simp add: js_def isWhiteSpace_def)
  have t: "trim (js ''thanks, thanks,'') = js ''thanks, thanks,''"
    "trim (js '' thanks, thanks,'') = js ''thanks, thanks,''"
    by (simp_all add: trim_def js_def isWhiteSpace_def)
  have split: "splitSpaces (js ''thanks, thanks,'') = [js ''thanks,'', js ''thanks,'']"
    by (simp add: js_def isWhiteSpace_def)
  have words: "splitWords (js ''thanks, thanks,'') = [js ''thanks,'', js ''thanks,'']"
    by (simp add: splitWords_def split) (simp add: js_def)
  have a: "splitWords (trim (collapseSpaces (js ''thanks, thanks,'')))
     = [js ''thanks,'', js ''thanks,'']"
    by (simp add: collapse t words)
  have b: "butlast (js ''thanks,'') = js ''thanks''"
    by (simp add: js_def)
  have c: "js ''thanks'' \<in> set FILLER_PHRASES"
    by (simp add: FILLER_PHRASES_def js_def)
  have lower: "toLowerCase nodeRuntime (js ''thanks, thanks,'') = js ''thanks, thanks,''"
    by (simp add: nodeRuntime_def latinToLowerCase_def js_def)
  have len: "length (js ''thanks, thanks,'') = 15" "js ''thanks, thanks,'' \<noteq> []"
    by (simp_all add: js_def)
  have nofill: "js ''thanks,'' \<notin> set FILLER_PHRASES"
    "stripPunctuation (js ''thanks,'') \<notin> set FILLER_PHRASES"
    by (simp_all add: FILLER_PHRASES_def stripPunctuation_def js_def)
  have f: "\<not> isFillerOnly nodeRuntime (js ''thanks, thanks,'')"
    using nofill by (simp add: isFillerOnly_def Let_def collapse t lower len words
        MIN_REAL_LENGTH_def)
  have r: "\<not> isRepetitiveNoise nodeRuntime (js ''thanks, thanks,'')"
    by (simp add: isRepetitiveNoise_def Let_def collapse t words)
  have d: "\<not> shouldIgnoreTranscript nodeRuntime (js ''thanks, thanks,'')"
    using f r len by (simp add: shouldIgnoreTranscript_def t MIN_REAL_LENGTH_def)
  have sp: "js '' '' @ js ''thanks, thanks,'' = js '' thanks, thanks,''"
    by (simp add: js_def)
  have e: "replyCalls (run nodeRuntime
        [(1, Transcript (js ''thanks, thanks,'') True), (2, UtteranceEnd)] initialSession)
       = [[(User, js ''thanks, thanks,'')]]"
    using d len(2)
    by (simp add: onTranscript_def onUtteranceEnd_def processTranscript_def Let_def
        initialSession_def sp t)
  show ?thesis using a b c f d e by simp
qed

section \<open>Repetitive noise\<close>

lemma count_list_two:
  "a \<noteq> b \<Longrightarrow> count_list xs a + count_list xs b \<le> length xs"
  by (induction xs) auto

lemma count_list_snoc:
  "count_list (xs @ [x]) y = count_list xs y + (if x = y then 1 else 0)"
  by (induction xs) auto

lemma find_SomeD: "find P xs = Some x \<Longrightarrow> x \<in> set xs \<and> P x"
  by (induction xs) (auto split: if_splits)

lemma find_NoneD: "find P xs = None \<Longrightarrow> x \<in> set xs \<Longrightarrow> \<not> P x"
  by (induction xs) (auto split: if_splits)

lemma mathMax_bounded:
  assumes "\<And>v. v \<in> set vs \<Longrightarrow> \<exists>n. v = CNum n \<and> n \<le> m"
  shows "mathMax vs = NegInfinity \<or> (\<exists>m'. mathMax vs = Num m' \<and> m' \<le> m)"
  using assms
proof (induction vs)
  case Nil
  then show ?case by simp
next
  case (Cons v vs)
  obtain n where v: "v = CNum n" "n \<le> m"
    using Cons.prems [of v] by auto
  have "mathMax vs = NegInfinity \<or> (\<exists>m'. mathMax vs = Num m' \<and> m' \<le> m)"
    using Cons.prems by (intro Cons.IH) simp
  then show ?case using v by auto
qed

lemma mathMax_Num:
  assumes "CNum m \<in> set vs"
    and "\<And>v. v \<in> set vs \<Longrightarrow> \<exists>n. v = CNum n \<and> n \<le> m"
  shows "mathMax vs = Num m"
  using assms
proof (induction vs)
  case Nil
  then show ?case by simp
next
  case (Cons v vs)
  obtain n where v: "v = CNum n" "n \<le> m"
    using Cons.prems(2) [of v] by auto
  have rest: "mathMax vs = NegInfinity \<or> (\<exists>m'. mathMax vs = Num m' \<and> m' \<le> m)"
    using Cons.prems(2) by (intro mathMax_bounded) simp
  show ?case
  proof (cases "CNum m \<in> set vs")
    case True
    then have "mathMax vs = Num m"
      using Cons.prems(2) by (intro Cons.IH) simp_all
    then show ?thesis using v by (simp add: max_def)
  next
    case False
    with Cons.prems(1) v have "n = m" by simp
    then show ?thesis using v rest by (auto simp: max_def)
  qed
qed

text \<open>
  What the counting loop leaves in \<open>count\<close> when no word is the name of a function that
  \<open>{}\<close> inherits: each key once, with the number of its occurrences; \<open>__proto__\<close> never.
\<close>

lemma counted:
  assumes "list_all (\<lambda>key. key \<notin> set inheritedFunctions) keys"
  shows "distinct (map fst (foldl countWord [] keys))
         \<and> (\<forall>key. map_of (foldl countWord [] keys) key =
               (if key \<in> set keys \<and> key \<noteq> js ''__proto__''
                then Some (CNum (count_list keys key)) else None))"
  using assms
proof (induction keys rule: rev_induct)
  case Nil
  then show ?case by simp
next
  case (snoc k ks)
  let ?c = "foldl countWord [] ks"
  from snoc.prems have ks: "list_all (\<lambda>key. key \<notin> set inheritedFunctions) ks"
    and k: "k \<notin> set inheritedFunctions"
    by simp_all
  from snoc.IH [OF ks] have d: "distinct (map fst ?c)"
    and m: "\<And>key. map_of ?c key =
        (if key \<in> set ks \<and> key \<noteq> js ''__proto__''
         then Some (CNum (count_list ks key)) else None)"
    by simp_all
  show ?case
  proof (cases "k = js ''__proto__''")
    case True
    then have "countWord ?c k = ?c"
      using m [of k] by (simp add: countWord_def)
    then show ?thesis
      using d m True by (auto simp: count_list_snoc)
  next
    case False
    show ?thesis
    proof (cases "k \<in> set ks")
      case True
      then have "countWord ?c k = AList.update k (CNum (count_list ks k + 1)) ?c"
        using m [of k] False by (simp add: countWord_def)
      then show ?thesis
        using d m True False by (auto simp: count_list_snoc update_conv' distinct_update)
    next
      case new: False
      then have "countWord ?c k = AList.update k (CNum 1) ?c"
        using m [of k] k False by (simp add: countWord_def)
      then show ?thesis
        using d m new False by (auto simp: count_list_snoc update_conv' distinct_update)
    qed
  qed
qed

lemma proto_not_short_or_filler:
  assumes "k \<in> set FILLER_PHRASES \<or> length k \<le> 3"
  shows "k \<noteq> js ''__proto__''"
proof
  assume k: "k = js ''__proto__''"
  have "js ''__proto__'' \<notin> set FILLER_PHRASES"
    by (simp add: FILLER_PHRASES_def js_def)
  moreover have "length (js ''__proto__'') = 9"
    by (simp add: js_def)
  ultimately show False using assms k by simp
qed

lemma dominant_word_found:
  assumes clean: "list_all (\<lambda>key. key \<notin> set inheritedFunctions) keys"
    and three: "3 \<le> count_list keys k"
    and ratio: "3 * length keys \<le> 5 * count_list keys k"
    and kind: "k \<in> set FILLER_PHRASES \<or> length k \<le> 3"
  shows "mathMax (map snd (foldl countWord [] keys)) = Num (count_list keys k)
         \<and> findRepeated (foldl countWord [] keys) (Num (count_list keys k)) = Some k"
proof -
  let ?c = "foldl countWord [] keys"
  let ?m = "count_list keys k"
  have d: "distinct (map fst ?c)"
    and m: "\<And>key. map_of ?c key =
        (if key \<in> set keys \<and> key \<noteq> js ''__proto__''
         then Some (CNum (count_list keys key)) else None)"
    using counted [OF clean] by simp_all
  have kp: "k \<noteq> js ''__proto__''"
    using kind by (rule proto_not_short_or_filler)
  have kin: "k \<in> set keys"
  proof (rule ccontr)
    assume "k \<notin> set keys"
    then have "count_list keys k = 0" by (simp add: count_list_0_iff)
    with three show False by simp
  qed
  have entry: "(key, v) \<in> set ?c \<longleftrightarrow>
      key \<in> set keys \<and> key \<noteq> js ''__proto__'' \<and> v = CNum (count_list keys key)" for key v
  proof -
    have "(key, v) \<in> set ?c \<longleftrightarrow> map_of ?c key = Some v"
      using d by simp
    also have "\<dots> \<longleftrightarrow>
        key \<in> set keys \<and> key \<noteq> js ''__proto__'' \<and> v = CNum (count_list keys key)"
      unfolding m [of key] by auto
    finally show ?thesis .
  qed
  have less: "count_list keys key < ?m" if "key \<noteq> k" for key
  proof -
    have "count_list keys key + ?m \<le> length keys"
      using that by (rule count_list_two)
    with three ratio show ?thesis by linarith
  qed
  have mine: "(k, CNum ?m) \<in> set ?c"
    using entry kin kp by simp
  have mx: "mathMax (map snd ?c) = Num ?m"
  proof (rule mathMax_Num)
    show "CNum ?m \<in> set (map snd ?c)"
      using mine by force
  next
    fix v assume "v \<in> set (map snd ?c)"
    then obtain key where "(key, v) \<in> set ?c" by auto
    then have v: "v = CNum (count_list keys key)" using entry by simp
    have "count_list keys key \<le> ?m"
      using less [of key] by (cases "key = k") simp_all
    with v show "\<exists>n. v = CNum n \<and> n \<le> ?m" by simp
  qed
  have "find (\<lambda>e. snd e = CNum ?m) ?c = Some (k, CNum ?m)"
  proof (cases "find (\<lambda>e. snd e = CNum ?m) ?c")
    case None
    from find_NoneD [OF None mine] show ?thesis by simp
  next
    case (Some e)
    obtain key v where e: "e = (key, v)" by (cases e) auto
    from find_SomeD [OF Some] have "e \<in> set ?c" and "snd e = CNum ?m"
      by blast+
    with e have "(key, v) \<in> set ?c" and v: "v = CNum ?m"
      by auto
    then have "count_list keys key = ?m"
      using entry [of key v] by simp
    then have "key = k"
      using less [of key] by auto
    with Some e v show ?thesis by simp
  qed
  then show ?thesis using mx by (simp add: findRepeated_def)
qed

text \<open>
  C5, as the code has it. Let the accumulated utterance, trimmed as the \<open>UtteranceEnd\<close>
  handler does, be split into words, each word lower-cased and stripped of the marks
  danda, \<open>?\<close>, \<open>!\<close> and \<open>.\<close>. When one such word occurs at least 3 times and makes up
  at least 60% of the words, and it is in \<open>FILLER_PHRASES\<close> or at most 3 code units
  long, and no word is the name of a function that every object inherits, then
  \<open>isRepetitiveNoise\<close> holds, the utterance is ignored and at \<open>UtteranceEnd\<close> only the
  accumulator is emptied.
\<close>

theorem repetitive_noise_discarded:
  assumes "userText = trim (pendingTranscript s)"
    and "words = splitWords (trim (collapseSpaces userText))"
    and "keys = map (\<lambda>w. stripPunctuation (toLowerCase rt w)) words"
    and "3 \<le> count_list keys k"
    and "3 * length words \<le> 5 * count_list keys k"
    and "k \<in> set FILLER_PHRASES \<or> length k \<le> 3"
    and "list_all (\<lambda>key. key \<notin> set inheritedFunctions) keys"
  shows "isRepetitiveNoise rt userText
         \<and> shouldIgnoreTranscript rt userText
         \<and> step rt now UtteranceEnd s = s\<lparr>pendingTranscript := []\<rparr>
         \<and> messages (step rt now UtteranceEnd s) = messages s
         \<and> replyCalls (step rt now UtteranceEnd s) = replyCalls s"
proof -
  have len: "length keys = length words"
    using assms(3) by simp
  have found: "mathMax (map snd (foldl countWord [] keys)) = Num (count_list keys k)
      \<and> findRepeated (foldl countWord [] keys) (Num (count_list keys k)) = Some k"
    using assms(4-7) len by (intro dominant_word_found) simp_all
  have "count_list keys k \<le> length keys"
    by (rule count_le_length)
  then have enough: "\<not> length words < 3"
    using assms(4) len by simp
  have noise: "isRepetitiveNoise rt userText"
    using found enough assms(4-6)
    by (simp add: isRepetitiveNoise_def Let_def assms(2) [symmetric] assms(3) [symmetric])
  then have ignore: "shouldIgnoreTranscript rt (trim (pendingTranscript s))"
    using assms(1) by (simp add: shouldIgnoreTranscript_def)
  have "step rt now UtteranceEnd s = s\<lparr>pendingTranscript := []\<rparr>"
    using ignore by (rule utteranceEnd_ignored)
  then show ?thesis
    using noise ignore assms(1) by simp
qed

theorem repetitive_noise_discarded_witness:
  "isRepetitiveNoise nodeRuntime (js ''Ji ji. ji ashwagandha bhejo'')
   \<and> step nodeRuntime 7 UtteranceEnd
        (initialSession\<lparr>pendingTranscript := js ''Ji ji. ji ashwagandha bhejo''\<rparr>)
       = initialSession"
proof -
  let ?s = "initialSession\<lparr>pendingTranscript := js ''Ji ji. ji ashwagandha bhejo''\<rparr>"
  let ?keys = "[js ''ji'', js ''ji'', js ''ji'', js ''ashwagandha'', js ''bhejo'']"
  have u: "js ''Ji ji. ji ashwagandha bhejo'' = trim (pendingTranscript ?s)"
    by (simp add: trim_def js_def isWhiteSpace_def)
  have w: "[js ''Ji'', js ''ji.'', js ''ji'', js ''ashwagandha'', js ''bhejo''] =
      splitWords (trim (collapseSpaces (js ''Ji ji. ji ashwagandha bhejo'')))"
    by (simp add: splitWords_def trim_def js_def isWhiteSpace_def)
  have k: "?keys = map (\<lambda>w. stripPunctuation (toLowerCase nodeRuntime w))
      [js ''Ji'', js ''ji.'', js ''ji'', js ''ashwagandha'', js ''bhejo'']"
    by (simp add: nodeRuntime_def latinToLowerCase_def stripPunctuation_def js_def)
  have c: "3 \<le> count_list ?keys (js ''ji'')"
    by (simp add: js_def)
  have r: "3 * length [js ''Ji'', js ''ji.'', js ''ji'', js ''ashwagandha'', js ''bhejo'']
      \<le> 5 * count_list ?keys (js ''ji'')"
    by (simp add: js_def)
  have f: "js ''ji'' \<in> set FILLER_PHRASES \<or> length (js ''ji'') \<le> 3"
    by (simp add: js_def)
  have i: "list_all (\<lambda>key. key \<notin> set inheritedFunctions) ?keys"
    by (simp add: inheritedFunctions_def js_def)
  from repetitive_noise_discarded [OF u w k c r f i, of 7]
  show ?thesis by (simp add: initialSession_def)
qed

text \<open>
  The utterance "ji ji ashwagandha" has three words, and "ji", a filler word of two
  code units, is two of them, more than 60%. It is not repetitive noise for the code
  (\<open>max >= 3\<close> fails), nor filler only nor too short: it is released, and
  \<open>nehaResponseWithHistory\<close> is called with it.
\<close>

theorem repetitive_noise_counterexample:
  "splitWords (trim (collapseSpaces (js ''ji ji ashwagandha'')))
     = [js ''ji'', js ''ji'', js ''ashwagandha'']
   \<and> js ''ji'' \<in> set FILLER_PHRASES
   \<and> \<not> isRepetitiveNoise nodeRuntime (js ''ji ji ashwagandha'')
   \<and> \<not> shouldIgnoreTranscript nodeRuntime (js ''ji ji ashwagandha'')
   \<and> replyCalls (run nodeRuntime
        [(1, Transcript (js ''ji ji ashwagandha'') True), (2, UtteranceEnd)] initialSession)
       = [[(User, js ''ji ji ashwagandha'')]]"
proof -
  have collapse: "collapseSpaces (js ''ji ji ashwagandha'') = js ''ji ji ashwagandha''"
    by (simp add: js_def isWhiteSpace_def)
  have t: "trim (js ''ji ji ashwagandha'') = js ''ji ji ashwagandha''"
    "trim (js '' ji ji ashwagandha'') = js ''ji ji ashwagandha''"
    by (simp_all add: trim_def js_def isWhiteSpace_def)
  have split: "splitSpaces (js ''ji ji ashwagandha'') = [js ''ji'', js ''ji'', js ''ashwagandha'']"
    by (simp add: js_def isWhiteSpace_def)
  have a: "splitWords (trim (collapseSpaces (js ''ji ji ashwagandha'')))
     = [js ''ji'', js ''ji'', js ''ashwagandha'']"
    by (simp add: splitWords_def collapse t split) (simp add: js_def)
  have b: "js ''ji'' \<in> set FILLER_PHRASES"
    by (simp add: FILLER_PHRASES_def js_def)
  have keys: "stripPunctuation (toLowerCase nodeRuntime (js ''ji'')) = js ''ji''"
    "stripPunctuation (toLowerCase nodeRuntime (js ''ashwagandha'')) = js ''ashwagandha''"
    by (simp_all add: nodeRuntime_def latinToLowerCase_def stripPunctuation_def js_def)
  have count: "countWord (countWord (countWord [] (js ''ji'')) (js ''ji'')) (js ''ashwagandha'')
      = [(js ''ji'', CNum 2), (js ''ashwagandha'', CNum 1)]"
    by (simp add: countWord_def inheritedFunctions_def js_def)
  have c: "\<not> isRepetitiveNoise nodeRuntime (js ''ji ji ashwagandha'')"
    by (simp add: isRepetitiveNoise_def Let_def a keys count)
  have lower: "toLowerCase nodeRuntime (js ''ji ji ashwagandha'') = js ''ji ji ashwagandha''"
    by (simp add: nodeRuntime_def latinToLowerCase_def js_def)
  have len: "length (js ''ji ji ashwagandha'') = 17"
    by (simp add: js_def)
  have nofill: "js ''ashwagandha'' \<notin> set FILLER_PHRASES"
    "stripPunctuation (js ''ashwagandha'') \<notin> set FILLER_PHRASES"
    by (simp_all add: FILLER_PHRASES_def stripPunctuation_def js_def)
  have f: "\<not> isFillerOnly nodeRuntime (js ''ji ji ashwagandha'')"
    using nofill a
    by (simp add: isFillerOnly_def Let_def collapse t lower len MIN_REAL_LENGTH_def)
  have ne: "js ''ji ji ashwagandha'' \<noteq> []"
    by (simp add: js_def)
  have d: "\<not> shouldIgnoreTranscript nodeRuntime (js ''ji ji ashwagandha'')"
    using c f ne by (simp add: shouldIgnoreTranscript_def t len MIN_REAL_LENGTH_def)
  have sp: "js '' '' @ js ''ji ji ashwagandha'' = js '' ji ji ashwagandha''"
    by (simp add: js_def)
  have e: "replyCalls (run nodeRuntime
        [(1, Transcript (js ''ji ji ashwagandha'') True), (2, UtteranceEnd)] initialSession)
       = [[(User, js ''ji ji ashwagandha'')]]"
    using d ne
    by (simp add: onTranscript_def onUtteranceEnd_def processTranscript_def Let_def
        initialSession_def sp t)
  show ?thesis using a b c d e by simp
qed

text \<open>
  A word that is the name of an inherited function spoils the count: in
  "ji ji ji ji constructor" the word "ji" is four of five, yet \<open>count.constructor\<close>
  becomes a string, \<open>Math.max\<close> gives \<open>NaN\<close> and the utterance is not repetitive
  noise for the code.
\<close>

lemma inherited_name_spoils_count:
  "\<not> isRepetitiveNoise nodeRuntime (js ''ji ji ji ji constructor'')"
proof -
  have collapse: "collapseSpaces (js ''ji ji ji ji constructor'') = js ''ji ji ji ji constructor''"
    by (simp add: js_def isWhiteSpace_def)
  have t: "trim (js ''ji ji ji ji constructor'') = js ''ji ji ji ji constructor''"
    by (simp add: trim_def js_def isWhiteSpace_def)
  have split: "splitSpaces (js ''ji ji ji ji constructor'')
      = [js ''ji'', js ''ji'', js ''ji'', js ''ji'', js ''constructor'']"
    by (simp add: js_def isWhiteSpace_def)
  have a: "splitWords (trim (collapseSpaces (js ''ji ji ji ji constructor'')))
      = [js ''ji'', js ''ji'', js ''ji'', js ''ji'', js ''constructor'']"
    by (simp add: splitWords_def collapse t split) (simp add: js_def)
  have keys: "stripPunctuation (toLowerCase nodeRuntime (js ''ji'')) = js ''ji''"
    "stripPunctuation (toLowerCase nodeRuntime (js ''constructor'')) = js ''constructor''"
    by (simp_all add: nodeRuntime_def latinToLowerCase_def stripPunctuation_def js_def)
  have count: "countWord (countWord (countWord (countWord (countWord [] (js ''ji''))
      (js ''ji'')) (js ''ji'')) (js ''ji'')) (js ''constructor'')
      = [(js ''ji'', CNum 4), (js ''constructor'', CStr)]"
    by (simp add: countWord_def inheritedFunctions_def js_def)
  show ?thesis
    by (simp add: isRepetitiveNoise_def Let_def a keys count)
qed

section \<open>Playback frames\<close>

lemma chunk_size: "TWILIO_MULAW_BYTES_PER_CHUNK = 160"
  by (simp add: TWILIO_MULAW_BYTES_PER_CHUNK_def TWILIO_SAMPLE_RATE_def
      TWILIO_MEDIA_CHUNK_MS_def)

lemma chunkPayloads_unfold:
  "chunkPayloads i buf =
     (if i < length buf then
        (if length buf - i < 160 then drop i buf @ replicate (160 - (length buf - i)) 0xff
         else take 160 (drop i buf))
        # chunkPayloads (i + 160) buf
      else [])"
proof (cases "i < length buf")
  case False
  then show ?thesis by (subst chunkPayloads.simps) simp
next
  case True
  then have ne: "take 160 (drop i buf) \<noteq> []" by simp
  show ?thesis
  proof (cases "length buf - i < 160")
    case short: True
    then have "take 160 (drop i buf) = drop i buf" by simp
    then show ?thesis
      using True short
      by (subst chunkPayloads.simps) (simp add: chunk_size Let_def)
  next
    case full: False
    then have "length (take 160 (drop i buf)) = 160" by simp
    then show ?thesis
      using True full ne
      by (subst chunkPayloads.simps) (simp add: chunk_size Let_def)
  qed
qed

lemma chunkPayloads_done: "length buf \<le> i \<Longrightarrow> chunkPayloads i buf = []"
  by (subst chunkPayloads_unfold) simp

lemma chunkPayloads_sizes: "f \<in> set (chunkPayloads i buf) \<Longrightarrow> length f = 160"
proof (induction i buf rule: chunkPayloads.induct)
  case (1 i buf)
  show ?case
  proof (cases "i < length buf")
    case True
    from "1.prems" have "f = (if length buf - i < 160
        then drop i buf @ replicate (160 - (length buf - i)) 0xff
        else take 160 (drop i buf)) \<or> f \<in> set (chunkPayloads (i + 160) buf)"
      by (subst (asm) chunkPayloads_unfold) (simp add: True)
    then show ?thesis
    proof
      assume "f = (if length buf - i < 160
        then drop i buf @ replicate (160 - (length buf - i)) 0xff
        else take 160 (drop i buf))"
      then show ?thesis using True by (auto simp: min_def)
    next
      assume "f \<in> set (chunkPayloads (i + 160) buf)"
      then show ?thesis
        using "1.IH" [OF True refl] True by (simp add: chunk_size)
    qed
  next
    case False
    then show ?thesis using "1.prems" by (simp add: chunkPayloads_done)
  qed
qed

lemma chunkPayloads_concat:
  "i \<le> length buf \<Longrightarrow>
   concat (chunkPayloads i buf) =
     drop i buf @ replicate ((160 - (length buf - i) mod 160) mod 160) 0xff"
proof (induction i buf rule: chunkPayloads.induct)
  case (1 i buf)
  show ?case
  proof (cases "i < length buf")
    case False
    then show ?thesis using "1.prems" by (simp add: chunkPayloads_done)
  next
    case True
    show ?thesis
    proof (cases "length buf - i < 160")
      case short: True
      then have "chunkPayloads (i + 160) buf = []"
        by (intro chunkPayloads_done) simp
      then show ?thesis
        using True short by (subst chunkPayloads_unfold) simp
    next
      case full: False
      then have le: "i + 160 \<le> length buf" by simp
      have ih: "concat (chunkPayloads (i + 160) buf) =
          drop (i + 160) buf @ replicate ((160 - (length buf - (i + 160)) mod 160) mod 160) 0xff"
        using "1.IH" [OF True refl] True le by (simp add: chunk_size)
      have m: "(length buf - (i + 160)) mod 160 = (length buf - i) mod 160"
        using le by (metis diff_diff_left le_mod_geq full not_less)
      have d: "take 160 (drop i buf) @ drop (i + 160) buf = drop i buf"
        by (metis add.commute append_take_drop_id drop_drop)
      show ?thesis
        using True full ih m d by (subst chunkPayloads_unfold) simp
    qed
  qed
qed

lemma ceil_div_chunk: "Suc ((d - 160 + 159) div 160) = (d + 159) div 160" if "0 < d" for d :: nat
proof -
  have a: "(d + 159) div 160 = Suc ((d + 159 - 160) div 160)"
    using that by (intro le_div_geq) simp_all
  have b: "(d - 160 + 159) div 160 = (d + 159 - 160) div 160"
  proof (cases "160 \<le> d")
    case True
    then have "d - 160 + 159 = d + 159 - 160" by simp
    then show ?thesis by simp
  next
    case False
    then have "d - 160 + 159 < 160" "d + 159 - 160 < 160" by simp_all
    then show ?thesis by simp
  qed
  show ?thesis using a b by simp
qed

lemma chunkPayloads_count:
  "length (chunkPayloads i buf) = (length buf - i + 159) div 160"
proof (induction i buf rule: chunkPayloads.induct)
  case (1 i buf)
  show ?case
  proof (cases "i < length buf")
    case False
    then show ?thesis by (simp add: chunkPayloads_done)
  next
    case True
    have ih: "length (chunkPayloads (i + 160) buf) = (length buf - (i + 160) + 159) div 160"
      using "1.IH" [OF True refl] True by (simp add: chunk_size)
    have unf: "length (chunkPayloads i buf) = Suc (length (chunkPayloads (i + 160) buf))"
      using True by (subst chunkPayloads_unfold) simp
    have "length buf - (i + 160) = (length buf - i) - 160"
      by simp
    then show ?thesis
      using unf ih ceil_div_chunk [of "length buf - i"] True by simp
  qed
qed

lemma sendMedia_open:
  "streamSid s = Some sid \<Longrightarrow> sid \<noteq> [] \<Longrightarrow> readyState s = 1 \<Longrightarrow>
   foldl (\<lambda>s p. sendMediaToTwilio (f p) s) s ps =
     s\<lparr>sentToTwilio := sentToTwilio s @ map (\<lambda>p. Media sid (f p)) ps\<rparr>"
  by (induction ps arbitrary: s) (simp_all add: sendMediaToTwilio_def sendToTwilio_def)

text \<open>
  C6. Every payload that the chunking loop hands to \<open>sendMediaToTwilio\<close> has exactly
  \<open>TWILIO_MULAW_BYTES_PER_CHUNK\<close> = 160 bytes. Put end to end the payloads are the
  buffer followed by fewer than 160 bytes \<open>0xff\<close>, so nothing is lost and the padding is
  the mu-law silence byte. There are \<open>(length + 159) div 160\<close> of them; a buffer of 350
  bytes gives three, the last being its bytes from 320 on followed by 130 bytes \<open>0xff\<close>.
  On an open socket with a stream identifier the media messages sent are these payloads,
  in order.
\<close>

theorem chunkPayloads_frames:
  "TWILIO_MULAW_BYTES_PER_CHUNK = 160
   \<and> (\<forall>f \<in> set (chunkPayloads 0 buf). length f = TWILIO_MULAW_BYTES_PER_CHUNK)
   \<and> concat (chunkPayloads 0 buf) = buf @ replicate ((160 - length buf mod 160) mod 160) 0xff
   \<and> length (chunkPayloads 0 buf) = (length buf + 159) div 160
   \<and> (length buf = 350 \<longrightarrow>
        chunkPayloads 0 buf =
          [take 160 buf, take 160 (drop 160 buf), drop 320 buf @ replicate 130 0xff])
   \<and> (\<forall>sid. streamSid s = Some sid \<and> sid \<noteq> [] \<and> readyState s = 1 \<longrightarrow>
        sentToTwilio (streamMulaw rt buf s) =
          sentToTwilio s @ map (\<lambda>p. Media sid (base64Encode rt p)) (chunkPayloads 0 buf))"
proof (intro conjI ballI allI impI)
  show "TWILIO_MULAW_BYTES_PER_CHUNK = 160" by (rule chunk_size)
next
  fix f assume "f \<in> set (chunkPayloads 0 buf)"
  then show "length f = TWILIO_MULAW_BYTES_PER_CHUNK"
    by (simp add: chunkPayloads_sizes chunk_size)
next
  show "concat (chunkPayloads 0 buf) = buf @ replicate ((160 - length buf mod 160) mod 160) 0xff"
    using chunkPayloads_concat [of 0 buf] by simp
next
  show "length (chunkPayloads 0 buf) = (length buf + 159) div 160"
    using chunkPayloads_count [of 0 buf] by simp
next
  assume "length buf = 350"
  then show "chunkPayloads 0 buf =
          [take 160 buf, take 160 (drop 160 buf), drop 320 buf @ replicate 130 0xff]"
    by (simp add: chunkPayloads_unfold [of 0] chunkPayloads_unfold [of 160]
        chunkPayloads_unfold [of 320] chunkPayloads_done)
next
  fix sid
  assume "streamSid s = Some sid \<and> sid \<noteq> [] \<and> readyState s = 1"
  then show "sentToTwilio (streamMulaw rt buf s) =
          sentToTwilio s @ map (\<lambda>p. Media sid (base64Encode rt p)) (chunkPayloads 0 buf)"
    by (simp add: streamMulaw_def sendMedia_open)
qed

theorem chunkPayloads_frames_witness:
  "length (replicate 350 (0::8 word)) = 350
   \<and> length (chunkPayloads 0 (replicate 350 0)) = 3
   \<and> map length (chunkPayloads 0 (replicate 350 0)) = [160, 160, 160]
   \<and> last (chunkPayloads 0 (replicate 350 0)) = replicate 30 0 @ replicate 130 0xff
   \<and> sentToTwilio (streamMulaw nodeRuntime (replicate 350 0)
        (initialSession\<lparr>streamSid := Some (js ''MZ1'')\<rparr>)) =
       map (\<lambda>p. Media (js ''MZ1'') (map ucast p)) (chunkPayloads 0 (replicate 350 0))"
proof -
  have s: "streamSid (initialSession\<lparr>streamSid := Some (js ''MZ1'')\<rparr>) = Some (js ''MZ1'')
      \<and> js ''MZ1'' \<noteq> [] \<and> readyState (initialSession\<lparr>streamSid := Some (js ''MZ1'')\<rparr>) = 1"
    by (simp add: initialSession_def js_def)
  show ?thesis
    using s chunkPayloads_frames [of "replicate 350 0"
        "initialSession\<lparr>streamSid := Some (js ''MZ1'')\<rparr>" nodeRuntime]
    by (simp add: initialSession_def nodeRuntime_def)
qed

section \<open>Inbound audio\<close>

lemma run_media_forwards:
  "\<not> isPlaying s \<Longrightarrow> deepgramLive s \<Longrightarrow>
   list_all (\<lambda>(now, payload). payload \<noteq> []) frames \<Longrightarrow>
   run rt (mediaMessages frames) s =
     s\<lparr>sentToDeepgram :=
         sentToDeepgram s @ map (\<lambda>(now, payload). base64Decode rt payload) frames\<rparr>"
proof (induction frames arbitrary: s)
  case Nil
  then show ?case by (simp add: mediaMessages_def)
next
  case (Cons fr frames)
  obtain now payload where fr: "fr = (now, payload)" by (cases fr) auto
  let ?s1 = "s\<lparr>sentToDeepgram := sentToDeepgram s @ [base64Decode rt payload]\<rparr>"
  have one: "step rt now (TwilioMedia payload) s = ?s1"
    using Cons.prems fr by (simp add: onMedia_def)
  have "run rt (mediaMessages frames) ?s1 =
      ?s1\<lparr>sentToDeepgram :=
          sentToDeepgram ?s1 @ map (\<lambda>(now, payload). base64Decode rt payload) frames\<rparr>"
    using Cons.prems by (intro Cons.IH) simp_all
  then show ?case
    using one fr by (simp add: mediaMessages_def)
qed

text \<open>
  C7. A \<open>media\<close> message that arrives while \<open>isPlaying\<close> is true changes nothing:
  nothing is sent to Deepgram. While \<open>isPlaying\<close> is false and the Deepgram connection
  exists, the decoded payload of a \<open>media\<close> message that carries one is sent to
  Deepgram, and a sequence of such messages is forwarded in the order of arrival.
\<close>

theorem media_forwarded_unless_playing:
  "(isPlaying s \<longrightarrow> step rt now (TwilioMedia payload) s = s)
   \<and> (\<not> isPlaying s \<and> deepgramLive s \<and> payload \<noteq> [] \<longrightarrow>
        step rt now (TwilioMedia payload) s =
          s\<lparr>sentToDeepgram := sentToDeepgram s @ [base64Decode rt payload]\<rparr>)
   \<and> (\<not> isPlaying s \<and> deepgramLive s
        \<and> list_all (\<lambda>(now, payload). payload \<noteq> []) frames \<longrightarrow>
        run rt (mediaMessages frames) s =
          s\<lparr>sentToDeepgram :=
              sentToDeepgram s @ map (\<lambda>(now, payload). base64Decode rt payload) frames\<rparr>)"
  by (simp add: onMedia_def run_media_forwards)

theorem media_forwarded_unless_playing_witness:
  "sentToDeepgram (step nodeRuntime 3 (TwilioMedia (js ''fw==''))
      (initialSession\<lparr>deepgramLive := True, isPlaying := True\<rparr>)) = []
   \<and> sentToDeepgram (run nodeRuntime (mediaMessages [(1, js ''fw==''), (2, js ''/w=='')])
      (initialSession\<lparr>deepgramLive := True\<rparr>))
     = [base64Decode nodeRuntime (js ''fw==''), base64Decode nodeRuntime (js ''/w=='')]"
proof -
  let ?p = "initialSession\<lparr>deepgramLive := True, isPlaying := True\<rparr>"
  let ?l = "initialSession\<lparr>deepgramLive := True\<rparr>"
  have p: "isPlaying ?p" by simp
  have l: "\<not> isPlaying ?l \<and> deepgramLive ?l
      \<and> list_all (\<lambda>(now, payload). payload \<noteq> []) [(1, js ''fw==''), (2, js ''/w=='')]"
    by (simp add: initialSession_def js_def)
  show ?thesis
    using p l
      media_forwarded_unless_playing [of ?p nodeRuntime 3 "js ''fw==''" "[]"]
      media_forwarded_unless_playing [of ?l nodeRuntime 3 "js ''fw==''"
        "[(1, js ''fw==''), (2, js ''/w=='')]"]
    by (simp add: initialSession_def)
qed

section \<open>Failure, apology and the end of a cycle\<close>

lemma map_of_filter_fst:
  "map_of (filter (\<lambda>c. fst c \<noteq> k) xs) k' = (if k' = k then None else map_of xs k')"
  by (induction xs) auto

lemma startFallback_effect:
  "speechCalls (startFallback cid s) = speechCalls s @ [FALLBACK_TEXT]"
  "map_of (cycles (startFallback cid s)) cid = Some AwaitFallbackSpeech"
  "isPlaying (startFallback cid s) = isPlaying s"
  "messages (startFallback cid s) = messages s"
  by (simp_all add: startFallback_def awaitNext_def update_conv')

lemma finishCycle_effect:
  "isPlaying (finishCycle now cid s) = False"
  "ignoreTranscriptsUntil (finishCycle now cid s) = now + 1000"
  "map_of (cycles (finishCycle now cid s)) cid = None"
  by (simp_all add: finishCycle_def map_of_filter_fst)

lemma step_removes_only_by_finish:
  assumes "map_of (cycles s) cid = Some a"
    and "map_of (cycles (step rt now ev s)) cid = None"
  shows "\<not> isPlaying (step rt now ev s)
         \<and> ignoreTranscriptsUntil (step rt now ev s) = now + 1000"
  using assms
  by (cases ev)
     (auto simp: onStart_def onMedia_def cleanup_def onTranscript_def onUtteranceEnd_def
        processTranscript_def replySettled_def speechSettled_def mulawSettled_def
        sendToTwilio_def Let_def startFallback_def awaitNext_def finishCycle_def
        update_conv' map_of_filter_fst
        split: await.splits sum.splits if_splits option.splits)

lemma awaited_settlement_progress:
  assumes "map_of (cycles s) cid = Some a" and "awaits a cid ev"
  shows "case map_of (cycles (step rt now ev s)) cid of
           None \<Rightarrow> True
         | Some a' \<Rightarrow> awaitsLeft a' < awaitsLeft a"
  using assms
  by (cases a; cases ev)
     (auto simp: replySettled_def speechSettled_def mulawSettled_def startFallback_def
        awaitNext_def finishCycle_def update_conv' map_of_filter_fst
        split: sum.splits)

text \<open>
  C8. Let an invocation of \<open>processTranscript\<close> be suspended at one of its \<open>await\<close>s.
  When \<open>nehaResponseWithHistory\<close>, \<open>textToSpeech\<close> or \<open>mp3ToMulaw8k\<close> rejects in the
  main path, or the transcoded audio is empty, \<open>textToSpeech\<close> is called with the fixed
  apology and the invocation waits for it, still playing. The apology's audio, like the
  reply's, goes through \<open>streamMulaw\<close>, the chunking loop, and then the \<open>finally\<close>
  block runs; when the apology's synthesis or transcoding rejects, the \<open>finally\<close>
  block runs at once. Every settlement the invocation waits for ends it or leaves it
  with fewer \<open>await\<close>s ahead, and whenever a step ends it, \<open>isPlaying\<close> is false and
  \<open>ignoreTranscriptsUntil\<close> is the time of that step plus 1000 ms.
\<close>

theorem cycle_falls_back_and_ends:
  assumes "map_of (cycles s) cid = Some a"
  shows "(a = AwaitReply \<longrightarrow>
            step rt now (ReplySettled cid (Inl err)) s = startFallback cid s)
         \<and> (a = AwaitSpeech \<longrightarrow>
            step rt now (SpeechSettled cid (Inl err)) s = startFallback cid s)
         \<and> (a = AwaitMulaw \<longrightarrow>
            step rt now (MulawSettled cid (Inl err)) s = startFallback cid s
            \<and> step rt now (MulawSettled cid (Inr [])) s = startFallback cid s)
         \<and> speechCalls (startFallback cid s) = speechCalls s @ [FALLBACK_TEXT]
         \<and> map_of (cycles (startFallback cid s)) cid = Some AwaitFallbackSpeech
         \<and> isPlaying (startFallback cid s) = isPlaying s
         \<and> (a = AwaitMulaw \<and> mulawBuffer \<noteq> [] \<longrightarrow>
            step rt now (MulawSettled cid (Inr mulawBuffer)) s =
              finishCycle now cid (streamMulaw rt mulawBuffer s))
         \<and> (a = AwaitFallbackSpeech \<longrightarrow>
            map_of (cycles (step rt now (SpeechSettled cid (Inr mp3Buffer)) s)) cid =
              Some AwaitFallbackMulaw
            \<and> step rt now (SpeechSettled cid (Inl err)) s = finishCycle now cid s)
         \<and> (a = AwaitFallbackMulaw \<longrightarrow>
            step rt now (MulawSettled cid (Inr mulawBuffer)) s =
              finishCycle now cid (streamMulaw rt mulawBuffer s)
            \<and> step rt now (MulawSettled cid (Inl err)) s = finishCycle now cid s)
         \<and> (awaits a cid ev \<longrightarrow>
            (case map_of (cycles (step rt now ev s)) cid of
               None \<Rightarrow> True
             | Some a' \<Rightarrow> awaitsLeft a' < awaitsLeft a))
         \<and> (map_of (cycles (step rt now ev s)) cid = None \<longrightarrow>
            \<not> isPlaying (step rt now ev s)
            \<and> ignoreTranscriptsUntil (step rt now ev s) = now + 1000)"
proof -
  have main: "(a = AwaitReply \<longrightarrow>
            step rt now (ReplySettled cid (Inl err)) s = startFallback cid s)
         \<and> (a = AwaitSpeech \<longrightarrow>
            step rt now (SpeechSettled cid (Inl err)) s = startFallback cid s)
         \<and> (a = AwaitMulaw \<longrightarrow>
            step rt now (MulawSettled cid (Inl err)) s = startFallback cid s
            \<and> step rt now (MulawSettled cid (Inr [])) s = startFallback cid s)"
    using assms by (simp add: replySettled_def speechSettled_def mulawSettled_def)
  have play: "(a = AwaitMulaw \<and> mulawBuffer \<noteq> [] \<longrightarrow>
            step rt now (MulawSettled cid (Inr mulawBuffer)) s =
              finishCycle now cid (streamMulaw rt mulawBuffer s))"
    using assms by (simp add: mulawSettled_def)
  have fb: "(a = AwaitFallbackSpeech \<longrightarrow>
            map_of (cycles (step rt now (SpeechSettled cid (Inr mp3Buffer)) s)) cid =
              Some AwaitFallbackMulaw
            \<and> step rt now (SpeechSettled cid (Inl err)) s = finishCycle now cid s)
         \<and> (a = AwaitFallbackMulaw \<longrightarrow>
            step rt now (MulawSettled cid (Inr mulawBuffer)) s =
              finishCycle now cid (streamMulaw rt mulawBuffer s)
            \<and> step rt now (MulawSettled cid (Inl err)) s = finishCycle now cid s)"
    using assms by (simp add: speechSettled_def mulawSettled_def awaitNext_def update_conv')
  have progress: "awaits a cid ev \<longrightarrow>
            (case map_of (cycles (step rt now ev s)) cid of
               None \<Rightarrow> True
             | Some a' \<Rightarrow> awaitsLeft a' < awaitsLeft a)"
    using awaited_settlement_progress [OF assms] by blast
  have ends: "map_of (cycles (step rt now ev s)) cid = None \<longrightarrow>
            \<not> isPlaying (step rt now ev s)
            \<and> ignoreTranscriptsUntil (step rt now ev s) = now + 1000"
    using step_removes_only_by_finish [OF assms] by blast
  show ?thesis
    using main play fb progress ends by (simp add: startFallback_effect)
qed

theorem cycle_falls_back_and_ends_witness:
  "step nodeRuntime 40 (ReplySettled 0 (Inl Error))
      (initialSession\<lparr>isPlaying := True, cycles := [(0, AwaitReply)]\<rparr>)
     = initialSession\<lparr>isPlaying := True, cycles := [(0, AwaitFallbackSpeech)],
         speechCalls := [FALLBACK_TEXT]\<rparr>
   \<and> step nodeRuntime 50 (SpeechSettled 0 (Inl Error))
        (initialSession\<lparr>isPlaying := True, cycles := [(0, AwaitSpeech)]\<rparr>)
     = initialSession\<lparr>isPlaying := True, cycles := [(0, AwaitFallbackSpeech)],
         speechCalls := [FALLBACK_TEXT]\<rparr>
   \<and> step nodeRuntime 60 (MulawSettled 0 (Inr []))
        (initialSession\<lparr>isPlaying := True, cycles := [(0, AwaitMulaw)]\<rparr>)
     = initialSession\<lparr>isPlaying := True, cycles := [(0, AwaitFallbackSpeech)],
         speechCalls := [FALLBACK_TEXT]\<rparr>
   \<and> step nodeRuntime 60 (MulawSettled 0 (Inr [0x7f]))
        (initialSession\<lparr>streamSid := Some (js ''MZ1''), isPlaying := True,
           cycles := [(0, AwaitMulaw)]\<rparr>)
     = initialSession\<lparr>streamSid := Some (js ''MZ1''), ignoreTranscriptsUntil := 1060,
         sentToTwilio := [Media (js ''MZ1'') (0x7f # replicate 159 0xff)]\<rparr>
   \<and> step nodeRuntime 70 (SpeechSettled 0 (Inr [0x49, 0x44, 0x33]))
        (initialSession\<lparr>isPlaying := True, cycles := [(0, AwaitFallbackSpeech)]\<rparr>)
     = initialSession\<lparr>isPlaying := True, cycles := [(0, AwaitFallbackMulaw)]\<rparr>
   \<and> step nodeRuntime 70 (SpeechSettled 0 (Inl Error))
        (initialSession\<lparr>isPlaying := True, cycles := [(0, AwaitFallbackSpeech)]\<rparr>)
     = initialSession\<lparr>ignoreTranscriptsUntil := 1070\<rparr>
   \<and> step nodeRuntime 90 (MulawSettled 0 (Inr [0x7f]))
        (initialSession\<lparr>streamSid := Some (js ''MZ1''), isPlaying := True,
           cycles := [(0, AwaitFallbackMulaw)]\<rparr>)
     = initialSession\<lparr>streamSid := Some (js ''MZ1''), ignoreTranscriptsUntil := 1090,
         sentToTwilio := [Media (js ''MZ1'') (0x7f # replicate 159 0xff)]\<rparr>
   \<and> step nodeRuntime 90 (MulawSettled 0 (Inl Error))
        (initialSession\<lparr>isPlaying := True, cycles := [(0, AwaitFallbackMulaw)]\<rparr>)
     = initialSession\<lparr>ignoreTranscriptsUntil := 1090\<rparr>
   \<and> awaitsLeft AwaitFallbackSpeech < awaitsLeft AwaitReply"
proof -
  let ?r = "initialSession\<lparr>isPlaying := True, cycles := [(0, AwaitReply)]\<rparr>"
  let ?s = "initialSession\<lparr>isPlaying := True, cycles := [(0, AwaitSpeech)]\<rparr>"
  let ?m = "initialSession\<lparr>isPlaying := True, cycles := [(0, AwaitMulaw)]\<rparr>"
  let ?p = "initialSession\<lparr>streamSid := Some (js ''MZ1''), isPlaying := True,
           cycles := [(0, AwaitMulaw)]\<rparr>"
  let ?fs = "initialSession\<lparr>isPlaying := True, cycles := [(0, AwaitFallbackSpeech)]\<rparr>"
  let ?fm = "initialSession\<lparr>isPlaying := True, cycles := [(0, AwaitFallbackMulaw)]\<rparr>"
  let ?fp = "initialSession\<lparr>streamSid := Some (js ''MZ1''), isPlaying := True,
           cycles := [(0, AwaitFallbackMulaw)]\<rparr>"
  have r: "map_of (cycles ?r) 0 = Some AwaitReply" by simp
  have s: "map_of (cycles ?s) 0 = Some AwaitSpeech" by simp
  have m: "map_of (cycles ?m) 0 = Some AwaitMulaw" by simp
  have p: "map_of (cycles ?p) 0 = Some AwaitMulaw" by simp
  have fs: "map_of (cycles ?fs) 0 = Some AwaitFallbackSpeech" by simp
  have fm: "map_of (cycles ?fm) 0 = Some AwaitFallbackMulaw" by simp
  have fp: "map_of (cycles ?fp) 0 = Some AwaitFallbackMulaw" by simp
  have aw: "awaits AwaitReply 0 (ReplySettled 0 (Inl Error))" by simp
  have frame: "chunkPayloads 0 [0x7f] = [0x7f # replicate 159 0xff]"
    by (simp add: chunkPayloads_unfold [of 0] chunkPayloads_done)
  have sid: "js ''MZ1'' \<noteq> []" by (simp add: js_def)
  have play: "streamMulaw nodeRuntime [0x7f] ?p
      = ?p\<lparr>sentToTwilio := [Media (js ''MZ1'') (0x7f # replicate 159 0xff)]\<rparr>"
    "streamMulaw nodeRuntime [0x7f] ?fp
      = ?fp\<lparr>sentToTwilio := [Media (js ''MZ1'') (0x7f # replicate 159 0xff)]\<rparr>"
    using sid
    by (simp_all add: streamMulaw_def frame sendMediaToTwilio_def sendToTwilio_def
        initialSession_def nodeRuntime_def)
  have ne: "[0x7f :: 8 word] \<noteq> []" by simp
  note t = cycle_falls_back_and_ends [where rt = nodeRuntime and err = Error]
  note defs = startFallback_def awaitNext_def finishCycle_def initialSession_def
  have w1: "step nodeRuntime 40 (ReplySettled 0 (Inl Error)) ?r
      = initialSession\<lparr>isPlaying := True, cycles := [(0, AwaitFallbackSpeech)],
          speechCalls := [FALLBACK_TEXT]\<rparr>"
    and w9: "awaitsLeft AwaitFallbackSpeech < awaitsLeft AwaitReply"
    using aw t [OF r, of 40 "[]" "[]" "ReplySettled 0 (Inl Error)"]
    by (simp_all add: defs)
  have w2: "step nodeRuntime 50 (SpeechSettled 0 (Inl Error)) ?s
      = initialSession\<lparr>isPlaying := True, cycles := [(0, AwaitFallbackSpeech)],
          speechCalls := [FALLBACK_TEXT]\<rparr>"
    using t [OF s, of 50 "[]" "[]" UtteranceEnd] by (simp add: defs)
  have w3: "step nodeRuntime 60 (MulawSettled 0 (Inr [])) ?m
      = initialSession\<lparr>isPlaying := True, cycles := [(0, AwaitFallbackSpeech)],
          speechCalls := [FALLBACK_TEXT]\<rparr>"
    using t [OF m, of 60 "[]" "[]" UtteranceEnd] by (simp add: defs)
  have w4: "step nodeRuntime 60 (MulawSettled 0 (Inr [0x7f])) ?p
      = initialSession\<lparr>streamSid := Some (js ''MZ1''), ignoreTranscriptsUntil := 1060,
          sentToTwilio := [Media (js ''MZ1'') (0x7f # replicate 159 0xff)]\<rparr>"
  proof -
    from ne t [OF p, of 60 "[0x7f]" "[]" UtteranceEnd]
    have "step nodeRuntime 60 (MulawSettled 0 (Inr [0x7f])) ?p
        = finishCycle 60 0 (streamMulaw nodeRuntime [0x7f] ?p)"
      by blast
    then show ?thesis
      unfolding play by (simp add: defs)
  qed
  have w5: "step nodeRuntime 70 (SpeechSettled 0 (Inr [0x49, 0x44, 0x33])) ?fs
      = initialSession\<lparr>isPlaying := True, cycles := [(0, AwaitFallbackMulaw)]\<rparr>"
    by (simp add: speechSettled_def defs)
  have w6: "step nodeRuntime 70 (SpeechSettled 0 (Inl Error)) ?fs
      = initialSession\<lparr>ignoreTranscriptsUntil := 1070\<rparr>"
    using t [OF fs, of 70 "[]" "[0x49, 0x44, 0x33]" UtteranceEnd] by (simp add: defs)
  have w7: "step nodeRuntime 90 (MulawSettled 0 (Inr [0x7f])) ?fp
      = initialSession\<lparr>streamSid := Some (js ''MZ1''), ignoreTranscriptsUntil := 1090,
          sentToTwilio := [Media (js ''MZ1'') (0x7f # replicate 159 0xff)]\<rparr>"
  proof -
    from t [OF fp, of 90 "[0x7f]" "[]" UtteranceEnd]
    have "step nodeRuntime 90 (MulawSettled 0 (Inr [0x7f])) ?fp
        = finishCycle 90 0 (streamMulaw nodeRuntime [0x7f] ?fp)"
      by blast
    then show ?thesis
      unfolding play by (simp add: defs)
  qed
  have w8: "step nodeRuntime 90 (MulawSettled 0 (Inl Error)) ?fm
      = initialSession\<lparr>ignoreTranscriptsUntil := 1090\<rparr>"
    using t [OF fm, of 90 "[]" "[]" UtteranceEnd] by (simp add: defs)
  show ?thesis
    using w1 w2 w3 w4 w5 w6 w7 w8 w9 by simp
qed

section \<open>Reply generation: rounds and their bound\<close>

lemma nehaLoop_requests_le: "length (snd (nehaLoop sv n ms)) \<le> n"
proof (induction n arbitrary: ms)
  case 0
  then show ?case by simp
next
  case (Suc n)
  have "length (snd (nehaLoop sv n ms')) \<le> n" for ms'
    by (rule Suc.IH)
  then show ?case
    by (auto simp: split_beta split: sum.splits option.splits)
qed

lemma runToolCalls_results:
  "map (\<lambda>tc. runTool sv (function_name tc) (toolArguments sv tc)) tcs = map Inr rs \<Longrightarrow>
   runToolCalls sv tcs ms =
     Inr (ms @ map (\<lambda>(tc, r). ToolMessage (call_id tc) r) (zip tcs rs))"
proof (induction tcs arbitrary: rs ms)
  case Nil
  then show ?case by simp
next
  case (Cons tc tcs)
  then obtain r rs' where rs: "rs = r # rs'" by (cases rs) auto
  with Cons.prems have r: "runTool sv (function_name tc) (toolArguments sv tc) = Inr r"
    and rest: "map (\<lambda>tc. runTool sv (function_name tc) (toolArguments sv tc)) tcs = map Inr rs'"
    by simp_all
  show ?case
    using r rs Cons.IH [OF rest, of "ms @ [ToolMessage (call_id tc) r]"] by simp
qed

lemma runToolCalls_rejects:
  "map (\<lambda>tc. runTool sv (function_name tc) (toolArguments sv tc)) pre = map Inr rs \<Longrightarrow>
   runTool sv (function_name tc) (toolArguments sv tc) = Inl err \<Longrightarrow>
   runToolCalls sv (pre @ tc # post) ms = Inl err"
proof (induction pre arbitrary: rs ms)
  case Nil
  then show ?case by simp
next
  case (Cons p pre)
  then obtain r rs' where rs: "rs = r # rs'" by (cases rs) auto
  with Cons.prems have r: "runTool sv (function_name p) (toolArguments sv p) = Inr r"
    and rest: "map (\<lambda>tc. runTool sv (function_name tc) (toolArguments sv tc)) pre = map Inr rs'"
    by simp_all
  show ?case
    using r Cons.IH [OF rest Cons.prems(2), of "ms @ [ToolMessage (call_id p) r]"] by simp
qed

lemma runToolCalls_InrD:
  "runToolCalls sv tcs ms = Inr ms' \<Longrightarrow>
   \<exists>rs. map (\<lambda>tc. runTool sv (function_name tc) (toolArguments sv tc)) tcs = map Inr rs
        \<and> ms' = ms @ map (\<lambda>(tc, r). ToolMessage (call_id tc) r) (zip tcs rs)"
proof (induction tcs arbitrary: ms)
  case Nil
  then show ?case by simp
next
  case (Cons tc tcs)
  from Cons.prems obtain r where r: "runTool sv (function_name tc) (toolArguments sv tc) = Inr r"
    and rest: "runToolCalls sv tcs (ms @ [ToolMessage (call_id tc) r]) = Inr ms'"
    by (auto split: sum.splits)
  from Cons.IH [OF rest] obtain rs where
    rs: "map (\<lambda>tc. runTool sv (function_name tc) (toolArguments sv tc)) tcs = map Inr rs"
    and ms': "ms' = (ms @ [ToolMessage (call_id tc) r])
        @ map (\<lambda>(tc, r). ToolMessage (call_id tc) r) (zip tcs rs)"
    by blast
  have "map (\<lambda>tc. runTool sv (function_name tc) (toolArguments sv tc)) (tc # tcs)
      = map Inr (r # rs)"
    using r rs by simp
  moreover have "ms' = ms @ map (\<lambda>(tc, r). ToolMessage (call_id tc) r) (zip (tc # tcs) (r # rs))"
    using ms' by simp
  ultimately show ?case by blast
qed

lemma nehaLoop_tool_round:
  assumes "createCompletion sv ms = Inr (Some (content, tcs))" and "tcs \<noteq> []"
    and "map (\<lambda>tc. runTool sv (function_name tc) (toolArguments sv tc)) tcs = map Inr rs"
  shows "nehaLoop sv (Suc n) ms =
     (fst (nehaLoop sv n (ms @ [AssistantMessage content tcs]
            @ map (\<lambda>(tc, r). ToolMessage (call_id tc) r) (zip tcs rs))),
      ms # snd (nehaLoop sv n (ms @ [AssistantMessage content tcs]
            @ map (\<lambda>(tc, r). ToolMessage (call_id tc) r) (zip tcs rs))))"
  using assms(1,2) runToolCalls_results [OF assms(3), of "ms @ [AssistantMessage content tcs]"]
  by (simp add: split_beta)

lemma nehaLoop_tool_rejects:
  assumes "createCompletion sv ms = Inr (Some (content, pre @ tc # post))"
    and "map (\<lambda>tc. runTool sv (function_name tc) (toolArguments sv tc)) pre = map Inr rs"
    and "runTool sv (function_name tc) (toolArguments sv tc) = Inl err"
  shows "nehaLoop sv (Suc n) ms = (Inl err, [ms])"
  using assms(1)
    runToolCalls_rejects [OF assms(2,3), of post "ms @ [AssistantMessage content (pre @ tc # post)]"]
  by simp

lemma nehaLoop_first_request:
  "snd (nehaLoop sv (Suc n) ms) \<noteq> [] \<and> hd (snd (nehaLoop sv (Suc n) ms)) = ms"
  by (auto simp: split_beta split: sum.splits option.splits)

lemma nehaLoop_chain:
  "Suc i < length (snd (nehaLoop sv n ms)) \<Longrightarrow>
   \<exists>c tcs rs.
     createCompletion sv (snd (nehaLoop sv n ms) ! i) = Inr (Some (c, tcs)) \<and> tcs \<noteq> []
     \<and> map (\<lambda>tc. runTool sv (function_name tc) (toolArguments sv tc)) tcs = map Inr rs
     \<and> snd (nehaLoop sv n ms) ! Suc i =
         snd (nehaLoop sv n ms) ! i @ [AssistantMessage c tcs]
           @ map (\<lambda>(tc, r). ToolMessage (call_id tc) r) (zip tcs rs)"
proof (induction n arbitrary: ms i)
  case 0
  then show ?case by simp
next
  case (Suc n)
  let ?reqs = "snd (nehaLoop sv (Suc n) ms)"
  have more: "1 < length ?reqs" using Suc.prems by simp
  obtain c tcs where c: "createCompletion sv ms = Inr (Some (c, tcs))" and ne: "tcs \<noteq> []"
    using more by (auto simp: split_beta split: sum.splits option.splits if_splits)
  obtain ms' where t: "runToolCalls sv tcs (ms @ [AssistantMessage c tcs]) = Inr ms'"
    using more c ne by (auto simp: split_beta split: sum.splits)
  from runToolCalls_InrD [OF t] obtain rs where
    rs: "map (\<lambda>tc. runTool sv (function_name tc) (toolArguments sv tc)) tcs = map Inr rs"
    and ms': "ms' = (ms @ [AssistantMessage c tcs])
        @ map (\<lambda>(tc, r). ToolMessage (call_id tc) r) (zip tcs rs)"
    by blast
  have reqs: "?reqs = ms # snd (nehaLoop sv n ms')"
    using c ne t by (simp add: split_beta)
  show ?case
  proof (cases i)
    case 0
    have "snd (nehaLoop sv n ms') \<noteq> []" using more reqs by auto
    then obtain n' where n: "n = Suc n'" by (cases n) auto
    have "hd (snd (nehaLoop sv n ms')) = ms'" "snd (nehaLoop sv n ms') \<noteq> []"
      using nehaLoop_first_request [of sv n' ms'] n by simp_all
    then have "?reqs ! Suc 0 = ms'"
      using reqs by (simp add: hd_conv_nth)
    moreover have "?reqs ! 0 = ms" using reqs by simp
    ultimately show ?thesis
      using 0 c ne rs ms' by auto
  next
    case (Suc j)
    have "Suc j < length (snd (nehaLoop sv n ms'))"
      using Suc.prems reqs Suc by simp
    from Suc.IH [OF this] show ?thesis
      using reqs Suc by simp
  qed
qed

lemma nehaLoop_exhausted:
  assumes "\<And>m. m \<in> set (snd (nehaLoop sv n ms)) \<Longrightarrow>
             \<exists>c tcs. createCompletion sv m = Inr (Some (c, tcs)) \<and> tcs \<noteq> []"
    and "fst (nehaLoop sv n ms) = Inr text"
  shows "text = EXHAUSTED_TEXT \<and> length (snd (nehaLoop sv n ms)) = n"
  using assms
proof (induction n arbitrary: ms)
  case 0
  then show ?case by simp
next
  case (Suc n)
  have "ms \<in> set (snd (nehaLoop sv (Suc n) ms))"
    using nehaLoop_first_request [of sv n ms] by (metis list.set_sel(1))
  from Suc.prems(1) [OF this]
  obtain c tcs where c: "createCompletion sv ms = Inr (Some (c, tcs))" and ne: "tcs \<noteq> []"
    by blast
  obtain ms' where t: "runToolCalls sv tcs (ms @ [AssistantMessage c tcs]) = Inr ms'"
    using Suc.prems(2) c ne by (auto split: sum.splits)
  have reqs: "nehaLoop sv (Suc n) ms
      = (fst (nehaLoop sv n ms'), ms # snd (nehaLoop sv n ms'))"
    using c ne t by (simp add: split_beta)
  have "text = EXHAUSTED_TEXT \<and> length (snd (nehaLoop sv n ms')) = n"
  proof (rule Suc.IH)
    fix m assume "m \<in> set (snd (nehaLoop sv n ms'))"
    then have "m \<in> set (snd (nehaLoop sv (Suc n) ms))" by (simp add: reqs del: nehaLoop.simps)
    then show "\<exists>c tcs. createCompletion sv m = Inr (Some (c, tcs)) \<and> tcs \<noteq> []"
      by (rule Suc.prems(1))
  next
    show "fst (nehaLoop sv n ms') = Inr text"
      using Suc.prems(2) by (simp add: reqs del: nehaLoop.simps)
  qed
  then show ?case by (simp add: reqs del: nehaLoop.simps)
qed

lemma nehaLoop_last_answer:
  assumes "snd (nehaLoop sv n ms) \<noteq> []"
    and "createCompletion sv (last (snd (nehaLoop sv n ms))) = Inr (Some (content, []))"
  shows "fst (nehaLoop sv n ms) =
           Inr (case content of
                  None \<Rightarrow> EMPTY_REPLY_TEXT
                | Some c \<Rightarrow> if trim c = [] then EMPTY_REPLY_TEXT else trim c)"
  using assms
proof (induction n arbitrary: ms)
  case 0
  then show ?case by simp
next
  case (Suc n)
  show ?case
  proof (cases "snd (nehaLoop sv (Suc n) ms) = [ms]")
    case True
    then have "createCompletion sv ms = Inr (Some (content, []))"
      using Suc.prems(2) by simp
    then show ?thesis by simp
  next
    case False
    then obtain c tcs where c: "createCompletion sv ms = Inr (Some (c, tcs))" and ne: "tcs \<noteq> []"
      by (auto simp: split_beta split: sum.splits option.splits if_splits)
    obtain ms' where t: "runToolCalls sv tcs (ms @ [AssistantMessage c tcs]) = Inr ms'"
      using False c ne by (auto simp: split_beta split: sum.splits)
    have reqs: "nehaLoop sv (Suc n) ms
        = (fst (nehaLoop sv n ms'), ms # snd (nehaLoop sv n ms'))"
      using c ne t by (simp add: split_beta)
    have more: "snd (nehaLoop sv n ms') \<noteq> []"
      using False reqs by simp
    then have "last (snd (nehaLoop sv (Suc n) ms)) = last (snd (nehaLoop sv n ms'))"
      by (simp add: reqs del: nehaLoop.simps)
    then have "createCompletion sv (last (snd (nehaLoop sv n ms'))) = Inr (Some (content, []))"
      using Suc.prems(2) by simp
    from Suc.IH [OF more this] show ?thesis by (simp add: reqs del: nehaLoop.simps)
  qed
qed

text \<open>
  C9. \<open>nehaResponseWithHistory\<close> is the loop entered with \<open>maxTurns\<close> = 8 on the system
  prompt followed by the history, and for every history and whatever the completion
  service and the tools answer it makes at most 8 requests. Each round, at any count of
  turns left: a rejected request rejects the function; a completion without a message
  returns the stock apology; a completion without tool calls returns the final text (the
  trimmed content, or the stock question when it is blank); a completion with tool calls
  runs \<open>runTool\<close> on each call in order, with the call's name and its parsed arguments,
  and the next round requests a completion for the messages so far followed by the
  assistant's message and one tool message per call with its result; a tool that rejects
  rejects the function. The arguments are \<open>JSON.parse\<close> of the call's arguments text,
  of "{}" when that is missing or empty, and the empty object when parsing fails. Over
  the whole call: the first request is for the system prompt and the history, every
  later request is the one before it extended by such a round of tools; when the last
  request made is answered without tool calls, in whichever round, its text is the
  result; and when every request made is answered with tool calls and no tool rejects,
  exactly 8 requests are made and the result is the fixed text
  "Thoda time lagega, baad mein phir try karein."
\<close>

theorem nehaResponseWithHistory_bounded:
  "nehaResponseWithHistory sv msgs =
     nehaLoop sv 8
       (SystemMessage NEHA_SYSTEM_PROMPT # map (\<lambda>(r, c). HistoryMessage r c) msgs)
   \<and> length (snd (nehaResponseWithHistory sv msgs)) \<le> 8
   \<and> length (snd (nehaLoop sv n ms)) \<le> n
   \<and> nehaLoop sv 0 ms = (Inr EXHAUSTED_TEXT, [])
   \<and> (createCompletion sv ms = Inl err \<longrightarrow> nehaLoop sv (Suc n) ms = (Inl err, [ms]))
   \<and> (createCompletion sv ms = Inr None \<longrightarrow>
        nehaLoop sv (Suc n) ms = (Inr NO_MESSAGE_TEXT, [ms]))
   \<and> (createCompletion sv ms = Inr (Some (content, [])) \<longrightarrow>
        nehaLoop sv (Suc n) ms =
          (Inr (case content of
                  None \<Rightarrow> EMPTY_REPLY_TEXT
                | Some c \<Rightarrow> if trim c = [] then EMPTY_REPLY_TEXT else trim c), [ms]))
   \<and> (createCompletion sv ms = Inr (Some (content, tcs)) \<and> tcs \<noteq> []
        \<and> map (\<lambda>tc. runTool sv (function_name tc) (toolArguments sv tc)) tcs = map Inr rs
        \<longrightarrow> nehaLoop sv (Suc n) ms =
            (fst (nehaLoop sv n (ms @ [AssistantMessage content tcs]
                   @ map (\<lambda>(tc, r). ToolMessage (call_id tc) r) (zip tcs rs))),
             ms # snd (nehaLoop sv n (ms @ [AssistantMessage content tcs]
                   @ map (\<lambda>(tc, r). ToolMessage (call_id tc) r) (zip tcs rs)))))
   \<and> (createCompletion sv ms = Inr (Some (content, pre @ tc # post))
        \<and> map (\<lambda>tc. runTool sv (function_name tc) (toolArguments sv tc)) pre = map Inr rs
        \<and> runTool sv (function_name tc) (toolArguments sv tc) = Inl err
        \<longrightarrow> nehaLoop sv (Suc n) ms = (Inl err, [ms]))
   \<and> (function_arguments tc = None \<or> function_arguments tc = Some [] \<longrightarrow>
        toolArguments sv tc =
          (case JSON_parse sv (js ''{}'') of None \<Rightarrow> emptyObject sv | Some args \<Rightarrow> args))
   \<and> (function_arguments tc = Some arguments \<and> arguments \<noteq> [] \<longrightarrow>
        toolArguments sv tc =
          (case JSON_parse sv arguments of None \<Rightarrow> emptyObject sv | Some args \<Rightarrow> args))
   \<and> snd (nehaResponseWithHistory sv msgs) \<noteq> []
   \<and> hd (snd (nehaResponseWithHistory sv msgs)) =
       SystemMessage NEHA_SYSTEM_PROMPT # map (\<lambda>(r, c). HistoryMessage r c) msgs
   \<and> (Suc i < length (snd (nehaResponseWithHistory sv msgs)) \<longrightarrow>
        (\<exists>c calls results.
           createCompletion sv (snd (nehaResponseWithHistory sv msgs) ! i)
             = Inr (Some (c, calls))
           \<and> calls \<noteq> []
           \<and> map (\<lambda>tc. runTool sv (function_name tc) (toolArguments sv tc)) calls
               = map Inr results
           \<and> snd (nehaResponseWithHistory sv msgs) ! Suc i =
               snd (nehaResponseWithHistory sv msgs) ! i @ [AssistantMessage c calls]
                 @ map (\<lambda>(tc, r). ToolMessage (call_id tc) r) (zip calls results)))
   \<and> (createCompletion sv (last (snd (nehaResponseWithHistory sv msgs)))
          = Inr (Some (answer, []))
        \<longrightarrow> fst (nehaResponseWithHistory sv msgs) =
            Inr (case answer of
                   None \<Rightarrow> EMPTY_REPLY_TEXT
                 | Some c \<Rightarrow> if trim c = [] then EMPTY_REPLY_TEXT else trim c))
   \<and> (list_all (\<lambda>m. \<exists>c calls. createCompletion sv m = Inr (Some (c, calls)) \<and> calls \<noteq> [])
          (snd (nehaResponseWithHistory sv msgs))
        \<and> fst (nehaResponseWithHistory sv msgs) = Inr reply
        \<longrightarrow> reply = EXHAUSTED_TEXT \<and> length (snd (nehaResponseWithHistory sv msgs)) = 8)"
proof -
  let ?init = "SystemMessage NEHA_SYSTEM_PROMPT # map (\<lambda>(r, c). HistoryMessage r c) msgs"
  have eight: "(8::nat) = Suc 7" by simp
  have c1: "nehaResponseWithHistory sv msgs = nehaLoop sv 8 ?init"
    by (simp add: nehaResponseWithHistory_def)
  have c2: "length (snd (nehaResponseWithHistory sv msgs)) \<le> 8"
    unfolding c1 by (rule nehaLoop_requests_le)
  have c3: "length (snd (nehaLoop sv n ms)) \<le> n"
    by (rule nehaLoop_requests_le)
  have c4: "nehaLoop sv 0 ms = (Inr EXHAUSTED_TEXT, [])"
    by simp
  have c5: "createCompletion sv ms = Inl err \<longrightarrow> nehaLoop sv (Suc n) ms = (Inl err, [ms])"
    by simp
  have c6: "createCompletion sv ms = Inr None \<longrightarrow>
        nehaLoop sv (Suc n) ms = (Inr NO_MESSAGE_TEXT, [ms])"
    by simp
  have c7: "createCompletion sv ms = Inr (Some (content, [])) \<longrightarrow>
        nehaLoop sv (Suc n) ms =
          (Inr (case content of
                  None \<Rightarrow> EMPTY_REPLY_TEXT
                | Some c \<Rightarrow> if trim c = [] then EMPTY_REPLY_TEXT else trim c), [ms])"
    by simp
  have c8: "createCompletion sv ms = Inr (Some (content, tcs)) \<and> tcs \<noteq> []
        \<and> map (\<lambda>tc. runTool sv (function_name tc) (toolArguments sv tc)) tcs = map Inr rs
        \<longrightarrow> nehaLoop sv (Suc n) ms =
            (fst (nehaLoop sv n (ms @ [AssistantMessage content tcs]
                   @ map (\<lambda>(tc, r). ToolMessage (call_id tc) r) (zip tcs rs))),
             ms # snd (nehaLoop sv n (ms @ [AssistantMessage content tcs]
                   @ map (\<lambda>(tc, r). ToolMessage (call_id tc) r) (zip tcs rs))))"
    using nehaLoop_tool_round [of sv ms content tcs rs n] by blast
  have c9: "createCompletion sv ms = Inr (Some (content, pre @ tc # post))
        \<and> map (\<lambda>tc. runTool sv (function_name tc) (toolArguments sv tc)) pre = map Inr rs
        \<and> runTool sv (function_name tc) (toolArguments sv tc) = Inl err
        \<longrightarrow> nehaLoop sv (Suc n) ms = (Inl err, [ms])"
    using nehaLoop_tool_rejects [of sv ms content pre tc post rs err n] by blast
  have c10: "function_arguments tc = None \<or> function_arguments tc = Some [] \<longrightarrow>
        toolArguments sv tc =
          (case JSON_parse sv (js ''{}'') of None \<Rightarrow> emptyObject sv | Some args \<Rightarrow> args)"
    by (auto simp: toolArguments_def)
  have c11: "function_arguments tc = Some arguments \<and> arguments \<noteq> [] \<longrightarrow>
        toolArguments sv tc =
          (case JSON_parse sv arguments of None \<Rightarrow> emptyObject sv | Some args \<Rightarrow> args)"
    by (auto simp: toolArguments_def)
  have c12: "snd (nehaResponseWithHistory sv msgs) \<noteq> []"
    and c13: "hd (snd (nehaResponseWithHistory sv msgs)) = ?init"
    unfolding c1 eight using nehaLoop_first_request [of sv 7 ?init] by blast+
  have c14: "Suc i < length (snd (nehaResponseWithHistory sv msgs)) \<longrightarrow>
        (\<exists>c calls results.
           createCompletion sv (snd (nehaResponseWithHistory sv msgs) ! i)
             = Inr (Some (c, calls))
           \<and> calls \<noteq> []
           \<and> map (\<lambda>tc. runTool sv (function_name tc) (toolArguments sv tc)) calls
               = map Inr results
           \<and> snd (nehaResponseWithHistory sv msgs) ! Suc i =
               snd (nehaResponseWithHistory sv msgs) ! i @ [AssistantMessage c calls]
                 @ map (\<lambda>(tc, r). ToolMessage (call_id tc) r) (zip calls results))"
    unfolding c1 using nehaLoop_chain [of i sv 8 ?init] by blast
  have c15: "createCompletion sv (last (snd (nehaResponseWithHistory sv msgs)))
          = Inr (Some (answer, []))
        \<longrightarrow> fst (nehaResponseWithHistory sv msgs) =
            Inr (case answer of
                   None \<Rightarrow> EMPTY_REPLY_TEXT
                 | Some c \<Rightarrow> if trim c = [] then EMPTY_REPLY_TEXT else trim c)"
    using c12 unfolding c1 by (auto intro: nehaLoop_last_answer)
  have c16: "list_all (\<lambda>m. \<exists>c calls. createCompletion sv m = Inr (Some (c, calls)) \<and> calls \<noteq> [])
          (snd (nehaResponseWithHistory sv msgs))
        \<and> fst (nehaResponseWithHistory sv msgs) = Inr reply
        \<longrightarrow> reply = EXHAUSTED_TEXT \<and> length (snd (nehaResponseWithHistory sv msgs)) = 8"
    unfolding c1 list_all_iff by (auto dest: nehaLoop_exhausted [rotated])
  show ?thesis
    by (intro conjI) (fact c1 c2 c3 c4 c5 c6 c7 c8 c9 c10 c11 c12 c13 c14 c15 c16)+
qed

theorem nehaResponseWithHistory_bounded_witness:
  "nehaResponseWithHistory (toolsThenAnswer 2) [(User, js ''kya hai'')] =
     (Inr (js ''ji bilkul''),
      [[SystemMessage NEHA_SYSTEM_PROMPT, HistoryMessage User (js ''kya hai'')],
       [SystemMessage NEHA_SYSTEM_PROMPT, HistoryMessage User (js ''kya hai''),
        AssistantMessage None
          [ToolCall (js ''call_1'') (Some (js ''get_products'')) (Some (js ''[3]'')),
           ToolCall (js ''call_2'') (Some (js ''get_products'')) (Some (js ''oops''))],
        ToolMessage (js ''call_1'') (js ''[3]''),
        ToolMessage (js ''call_2'') (js ''{}'')]])
   \<and> fst (nehaResponseWithHistory (toolsThenAnswer 14) [(User, js ''kya hai'')])
       = Inr (js ''ji bilkul'')
   \<and> length (snd (nehaResponseWithHistory (toolsThenAnswer 14) [(User, js ''kya hai'')])) = 8
   \<and> fst (nehaResponseWithHistory alwaysTools [(User, js ''kya hai'')]) = Inr EXHAUSTED_TEXT
   \<and> length (snd (nehaResponseWithHistory alwaysTools [(User, js ''kya hai'')])) = 8
   \<and> nehaResponseWithHistory answersAtOnce [(User, js ''kya hai'')] =
       (Inr (js ''ji bilkul''),
        [[SystemMessage NEHA_SYSTEM_PROMPT, HistoryMessage User (js ''kya hai'')]])"
proof -
  let ?h = "[(User, js ''kya hai'')]"
  let ?m0 = "[SystemMessage NEHA_SYSTEM_PROMPT, HistoryMessage User (js ''kya hai'')]"
  let ?tc1 = "ToolCall (js ''call_1'') (Some (js ''get_products'')) (Some (js ''[3]''))"
  let ?tc2 = "ToolCall (js ''call_2'') (Some (js ''get_products'')) (Some (js ''oops''))"
  let ?m1 = "?m0 @ [AssistantMessage None [?tc1, ?tc2]]
      @ map (\<lambda>(tc, r). ToolMessage (call_id tc) r) (zip [?tc1, ?tc2] [js ''[3]'', js ''{}''])"
  note T = nehaResponseWithHistory_bounded
  have init: "SystemMessage NEHA_SYSTEM_PROMPT # map (\<lambda>(r, c). HistoryMessage r c) ?h = ?m0"
    by simp
  have t: "trim (js '' ji bilkul '') = js ''ji bilkul''"
    by (simp add: trim_def js_def isWhiteSpace_def)
  have ne: "js ''[3]'' \<noteq> []" "js ''oops'' \<noteq> []" "js ''[3]'' \<noteq> js ''oops''"
    by (simp_all add: js_def)
  have a1: "toolArguments (toolsThenAnswer 2) ?tc1 = js ''[3]''"
  proof -
    have "function_arguments ?tc1 = Some (js ''[3]'') \<and> js ''[3]'' \<noteq> []"
      using ne by simp
    then have "toolArguments (toolsThenAnswer 2) ?tc1 =
        (case JSON_parse (toolsThenAnswer 2) (js ''[3]'') of
           None \<Rightarrow> emptyObject (toolsThenAnswer 2) | Some args \<Rightarrow> args)"
      using T [where sv = "toolsThenAnswer 2" and tc = ?tc1 and arguments = "js ''[3]''"]
      by blast
    then show ?thesis using ne by (simp add: toolsThenAnswer_def)
  qed
  have a2: "toolArguments (toolsThenAnswer 2) ?tc2 = js ''{}''"
  proof -
    have "function_arguments ?tc2 = Some (js ''oops'') \<and> js ''oops'' \<noteq> []"
      using ne by simp
    then have "toolArguments (toolsThenAnswer 2) ?tc2 =
        (case JSON_parse (toolsThenAnswer 2) (js ''oops'') of
           None \<Rightarrow> emptyObject (toolsThenAnswer 2) | Some args \<Rightarrow> args)"
      using T [where sv = "toolsThenAnswer 2" and tc = ?tc2 and arguments = "js ''oops''"]
      by blast
    then show ?thesis by (simp add: toolsThenAnswer_def)
  qed
  have ask: "createCompletion (toolsThenAnswer 2) ?m0 = Inr (Some (None, [?tc1, ?tc2]))"
    by (simp add: toolsThenAnswer_def)
  have tools: "map (\<lambda>tc. runTool (toolsThenAnswer 2) (function_name tc)
        (toolArguments (toolsThenAnswer 2) tc)) [?tc1, ?tc2] = map Inr [js ''[3]'', js ''{}'']"
    by (simp add: a1 a2) (simp add: toolsThenAnswer_def)
  have answer: "createCompletion (toolsThenAnswer 2) ?m1
      = Inr (Some (Some (js '' ji bilkul ''), []))"
    by (simp add: toolsThenAnswer_def)
  have round1: "nehaLoop (toolsThenAnswer 2) (Suc 7) ?m0 =
      (fst (nehaLoop (toolsThenAnswer 2) 7 ?m1), ?m0 # snd (nehaLoop (toolsThenAnswer 2) 7 ?m1))"
    using ask tools
      T [where sv = "toolsThenAnswer 2" and ms = ?m0 and content = None and tcs = "[?tc1, ?tc2]"
          and rs = "[js ''[3]'', js ''{}'']" and n = 7]
    by blast
  have round2: "nehaLoop (toolsThenAnswer 2) (Suc 6) ?m1 = (Inr (js ''ji bilkul''), [?m1])"
  proof -
    have "nehaLoop (toolsThenAnswer 2) (Suc 6) ?m1 =
        (Inr (case Some (js '' ji bilkul '') of
                None \<Rightarrow> EMPTY_REPLY_TEXT
              | Some c \<Rightarrow> if trim c = [] then EMPTY_REPLY_TEXT else trim c), [?m1])"
      using answer
        T [where sv = "toolsThenAnswer 2" and ms = ?m1
            and content = "Some (js '' ji bilkul '')" and n = 6]
      by blast
    then show ?thesis
      using t by (simp del: nehaLoop.simps) (simp add: js_def)
  qed
  have w1: "nehaResponseWithHistory (toolsThenAnswer 2) ?h = (Inr (js ''ji bilkul''), [?m0, ?m1])"
  proof -
    have "nehaResponseWithHistory (toolsThenAnswer 2) ?h = nehaLoop (toolsThenAnswer 2) 8
        (SystemMessage NEHA_SYSTEM_PROMPT # map (\<lambda>(r, c). HistoryMessage r c) ?h)"
      using T [where sv = "toolsThenAnswer 2" and msgs = ?h] by blast
    then have "nehaResponseWithHistory (toolsThenAnswer 2) ?h = nehaLoop (toolsThenAnswer 2) 8 ?m0"
      by (simp del: nehaLoop.simps)
    also have "\<dots> = nehaLoop (toolsThenAnswer 2) (Suc 7) ?m0" by simp
    also have "\<dots> = (Inr (js ''ji bilkul''), [?m0, ?m1])"
      unfolding round1 using round2 by (simp del: nehaLoop.simps add: eval_nat_numeral)
    finally show ?thesis .
  qed
  have w4: "nehaResponseWithHistory answersAtOnce ?h = (Inr (js ''ji bilkul''), [?m0])"
  proof -
    have "createCompletion answersAtOnce ?m0 = Inr (Some (Some (js '' ji bilkul ''), []))"
      by (simp add: answersAtOnce_def)
    then have "nehaLoop answersAtOnce (Suc 7) ?m0 =
        (Inr (case Some (js '' ji bilkul '') of
                None \<Rightarrow> EMPTY_REPLY_TEXT
              | Some c \<Rightarrow> if trim c = [] then EMPTY_REPLY_TEXT else trim c), [?m0])"
      using T [where sv = answersAtOnce and ms = ?m0
          and content = "Some (js '' ji bilkul '')" and n = 7]
      by blast
    then have "nehaLoop answersAtOnce (Suc 7) ?m0 = (Inr (js ''ji bilkul''), [?m0])"
      using t by (simp del: nehaLoop.simps) (simp add: js_def)
    then show ?thesis
      by (simp add: nehaResponseWithHistory_def eval_nat_numeral del: nehaLoop.simps)
  qed
  have w3a: "fst (nehaResponseWithHistory alwaysTools ?h) = Inr EXHAUSTED_TEXT"
    by (simp add: nehaResponseWithHistory_def alwaysTools_def eval_nat_numeral split_beta)
  have all: "list_all (\<lambda>m. \<exists>c calls. createCompletion alwaysTools m = Inr (Some (c, calls))
      \<and> calls \<noteq> []) (snd (nehaResponseWithHistory alwaysTools ?h))"
    by (simp add: alwaysTools_def list_all_iff)
  have w3b: "length (snd (nehaResponseWithHistory alwaysTools ?h)) = 8"
    using all w3a T [where sv = alwaysTools and msgs = ?h and reply = EXHAUSTED_TEXT]
    by blast
  have w2b: "length (snd (nehaResponseWithHistory (toolsThenAnswer 14) ?h)) = 8"
    by (simp add: nehaResponseWithHistory_def toolsThenAnswer_def toolArguments_def
        eval_nat_numeral split_beta)
  have late: "createCompletion (toolsThenAnswer 14)
      (last (snd (nehaResponseWithHistory (toolsThenAnswer 14) ?h)))
      = Inr (Some (Some (js '' ji bilkul ''), []))"
    by (simp add: nehaResponseWithHistory_def toolsThenAnswer_def toolArguments_def
        eval_nat_numeral split_beta)
  have w2a: "fst (nehaResponseWithHistory (toolsThenAnswer 14) ?h) = Inr (js ''ji bilkul'')"
  proof -
    have "fst (nehaResponseWithHistory (toolsThenAnswer 14) ?h) =
        Inr (case Some (js '' ji bilkul '') of
               None \<Rightarrow> EMPTY_REPLY_TEXT
             | Some c \<Rightarrow> if trim c = [] then EMPTY_REPLY_TEXT else trim c)"
      using late
        T [where sv = "toolsThenAnswer 14" and msgs = ?h
            and answer = "Some (js '' ji bilkul '')"]
      by blast
    then show ?thesis
      using t by (simp del: nehaLoop.simps) (simp add: js_def)
  qed
  show ?thesis
    using w1 w2a w2b w3a w3b w4 by simp
qed

section \<open>The history across a failed turn\<close>

lemma step_history:
  "prefix (messages s) (messages (step rt now ev s))
   \<and> (replyCalls (step rt now ev s) = replyCalls s
      \<or> replyCalls (step rt now ev s) = replyCalls s @ [messages (step rt now ev s)])"
  by (cases ev)
     (auto simp: onStart_def onMedia_def cleanup_def onTranscript_def onUtteranceEnd_def
        processTranscript_def replySettled_def speechSettled_def mulawSettled_def
        sendToTwilio_def Let_def startFallback_def awaitNext_def finishCycle_def
        split: await.splits sum.splits option.splits)

lemma step_appends_turn:
  "messages (step rt now ev s) = messages s
   \<or> (\<exists>userText. ev = UtteranceEnd
         \<and> messages (step rt now ev s) = messages s @ [(User, userText)])
   \<or> (\<exists>cid reply. ev = ReplySettled cid (Inr reply)
         \<and> messages (step rt now ev s) = messages s @ [(Assistant, reply)])"
  by (cases ev)
     (auto simp: onStart_def onMedia_def cleanup_def onTranscript_def onUtteranceEnd_def
        processTranscript_def replySettled_def speechSettled_def mulawSettled_def
        sendToTwilio_def Let_def startFallback_def awaitNext_def finishCycle_def
        split: await.splits sum.splits option.splits)

lemma run_history:
  "prefix (messages s) (messages (run rt evs s))
   \<and> (\<exists>hs. replyCalls (run rt evs s) = replyCalls s @ hs
          \<and> list_all (prefix (messages s)) hs)"
proof (induction evs arbitrary: s)
  case Nil
  then show ?case by simp
next
  case (Cons e evs)
  obtain now ev where e: "e = (now, ev)" by (cases e) auto
  let ?s1 = "step rt now ev s"
  from Cons.IH [of ?s1] obtain hs where
    p: "prefix (messages ?s1) (messages (run rt evs ?s1))"
    and hs: "replyCalls (run rt evs ?s1) = replyCalls ?s1 @ hs"
      "list_all (prefix (messages ?s1)) hs"
    by blast
  have s1: "prefix (messages s) (messages ?s1)"
    using step_history [of s rt now ev] by simp
  have all: "list_all (prefix (messages s)) hs"
    using hs(2) s1 by (auto simp: list_all_iff intro: prefix_order.trans)
  have "\<exists>hs'. replyCalls (run rt evs ?s1) = replyCalls s @ hs'
      \<and> list_all (prefix (messages s)) hs'"
  proof (cases "replyCalls ?s1 = replyCalls s")
    case True
    with hs(1) all show ?thesis by auto
  next
    case False
    then have "replyCalls ?s1 = replyCalls s @ [messages ?s1]"
      using step_history [of s rt now ev] by auto
    with hs(1) all s1 show ?thesis by auto
  qed
  then show ?case
    using p s1 e by (auto intro: prefix_order.trans)
qed

text \<open>
  C10, as the code has it. \<open>processTranscript\<close> appends the user turn to the history
  before it calls \<open>nehaResponseWithHistory\<close>, which receives the history with that
  turn. When the call rejects the history stays as it is: the user turn remains and no
  assistant turn is appended. When it resolves the reply is appended at once, before
  synthesis; no settlement of \<open>textToSpeech\<close> or \<open>mp3ToMulaw8k\<close> changes the history,
  so after a failure of synthesis or transcoding the reply is still in the history. A
  step changes the history only by appending the user turn of a released utterance or
  the text that \<open>nehaResponseWithHistory\<close> resolved with, so the apology is never
  recorded. Along every run the history only grows at its end, and every later call of
  \<open>nehaResponseWithHistory\<close> receives a history that begins with it.
\<close>

theorem history_after_failed_turn:
  "(\<not> isPlaying s \<and> trim userText \<noteq> [] \<longrightarrow>
      messages (processTranscript userText s) = messages s @ [(User, userText)]
      \<and> replyCalls (processTranscript userText s) =
          replyCalls s @ [messages s @ [(User, userText)]])
   \<and> (map_of (cycles s) cid = Some AwaitReply \<longrightarrow>
      messages (step rt now (ReplySettled cid (Inl err)) s) = messages s
      \<and> messages (step rt now (ReplySettled cid (Inr reply)) s) =
          messages s @ [(Assistant, reply)])
   \<and> messages (step rt now (SpeechSettled cid speech) s) = messages s
   \<and> messages (step rt now (MulawSettled cid mulaw) s) = messages s
   \<and> (messages (step rt now ev s) = messages s
      \<or> (\<exists>text. ev = UtteranceEnd
            \<and> messages (step rt now ev s) = messages s @ [(User, text)])
      \<or> (\<exists>c text. ev = ReplySettled c (Inr text)
            \<and> messages (step rt now ev s) = messages s @ [(Assistant, text)]))
   \<and> prefix (messages s) (messages (run rt evs s))
   \<and> (\<exists>hs. replyCalls (run rt evs s) = replyCalls s @ hs
          \<and> list_all (prefix (messages s)) hs)"
proof -
  have start: "\<not> isPlaying s \<and> trim userText \<noteq> [] \<longrightarrow>
      messages (processTranscript userText s) = messages s @ [(User, userText)]
      \<and> replyCalls (processTranscript userText s) =
          replyCalls s @ [messages s @ [(User, userText)]]"
    by (auto simp: processTranscript_def Let_def trim_def)
  have reply: "map_of (cycles s) cid = Some AwaitReply \<longrightarrow>
      messages (step rt now (ReplySettled cid (Inl err)) s) = messages s
      \<and> messages (step rt now (ReplySettled cid (Inr reply)) s) =
          messages s @ [(Assistant, reply)]"
    by (simp add: replySettled_def startFallback_def awaitNext_def)
  have speech: "messages (step rt now (SpeechSettled cid speech) s) = messages s"
    by (simp add: speechSettled_def startFallback_def awaitNext_def finishCycle_def
        split: option.splits await.splits sum.splits)
  have mulaw: "messages (step rt now (MulawSettled cid mulaw) s) = messages s"
    by (simp add: mulawSettled_def startFallback_def awaitNext_def finishCycle_def
        split: option.splits await.splits sum.splits)
  show ?thesis
    using start reply speech mulaw step_appends_turn [of rt now ev s] run_history [of s rt evs]
    by blast
qed

theorem history_after_failed_turn_witness:
  "messages (processTranscript (js ''bhejo'') initialSession) = [(User, js ''bhejo'')]
   \<and> replyCalls (processTranscript (js ''bhejo'') initialSession) = [[(User, js ''bhejo'')]]
   \<and> messages (step nodeRuntime 3 (ReplySettled 0 (Inl Error))
        (processTranscript (js ''bhejo'') initialSession)) = [(User, js ''bhejo'')]
   \<and> messages (step nodeRuntime 3 (ReplySettled 0 (Inr (js ''ji'')))
        (processTranscript (js ''bhejo'') initialSession))
       = [(User, js ''bhejo''), (Assistant, js ''ji'')]"
proof -
  have t: "\<not> isPlaying initialSession \<and> trim (js ''bhejo'') \<noteq> []"
    by (simp add: initialSession_def trim_def js_def isWhiteSpace_def)
  have i: "messages initialSession = []" "replyCalls initialSession = []"
    by (simp_all add: initialSession_def)
  have c: "map_of (cycles (processTranscript (js ''bhejo'') initialSession)) 0 = Some AwaitReply"
    using t by (auto simp: processTranscript_def Let_def initialSession_def trim_def)
  show ?thesis
    using t i c
      history_after_failed_turn [of initialSession "js ''bhejo''" 0 nodeRuntime 3 Error "[]"
        "Inl Error" "Inl Error" UtteranceEnd "[]"]
      history_after_failed_turn [of "processTranscript (js ''bhejo'') initialSession"
        "js ''bhejo''" 0 nodeRuntime 3 Error "js ''ji''" "Inl Error" "Inl Error" UtteranceEnd "[]"]
    by simp
qed

text \<open>
  A turn whose synthesis fails: \<open>processTranscript\<close> is called on a fresh session,
  \<open>nehaResponseWithHistory\<close> resolves with "ji bilkul" and \<open>textToSpeech\<close> rejects.
  The invocation is then waiting for the apology's audio, and the history holds the
  assistant turn "ji bilkul" of this cycle.
\<close>

theorem history_counterexample:
  "cycles (run nodeRuntime
      [(3, ReplySettled 0 (Inr (js ''ji bilkul''))), (4, SpeechSettled 0 (Inl Error))]
      (processTranscript (js ''mujhe ashwagandha tablets chahiye'') initialSession))
     = [(0, AwaitFallbackSpeech)]
   \<and> messages (run nodeRuntime
      [(3, ReplySettled 0 (Inr (js ''ji bilkul''))), (4, SpeechSettled 0 (Inl Error))]
      (processTranscript (js ''mujhe ashwagandha tablets chahiye'') initialSession))
     = [(User, js ''mujhe ashwagandha tablets chahiye''), (Assistant, js ''ji bilkul'')]"
proof -
  have t: "trim (js ''mujhe ashwagandha tablets chahiye'') \<noteq> []"
    "js ''mujhe ashwagandha tablets chahiye'' \<noteq> []"
    by (simp_all add: trim_def js_def isWhiteSpace_def)
  have start: "processTranscript (js ''mujhe ashwagandha tablets chahiye'') initialSession
      = initialSession\<lparr>isPlaying := True,
          messages := [(User, js ''mujhe ashwagandha tablets chahiye'')],
          replyCalls := [[(User, js ''mujhe ashwagandha tablets chahiye'')]],
          cycles := [(0, AwaitReply)], nextId := 1\<rparr>"
    using t by (simp add: processTranscript_def Let_def initialSession_def)
  show ?thesis
    unfolding start
    by (simp add: replySettled_def speechSettled_def startFallback_def awaitNext_def
        initialSession_def)
qed


end
